theory Spec2Isabelle
  imports Complex_Main
begin



section \<open>Arithmetic of the C type double\<close>

text \<open>
  The stepper computes with C doubles and branches on \<^verbatim>\<open>isfinite\<close>, \<^verbatim>\<open>isinf\<close> and on
  comparisons that are false for NaN; unset configuration entries hold \<^verbatim>\<open>INFINITY\<close>.
  A double is modelled as an exact real number or one of the three special values. The
  special values, the comparisons and \<^verbatim>\<open>fmin\<close> follow IEEE 754. The sum, product and quotient
  of finite values are exact: rounding, overflow to infinity and the sign of zero are not
  modelled (a division by zero takes the divisor as \<open>+0\<close>). The theorems below are therefore
  kept to what the stepper assigns, tests and compares. Apart from the evaluation of the
  examples they use the order, the sign of a product and the special values, which doubles
  share, and no algebraic law of the arithmetic (associativity, distributivity,
  cancellation of a quotient), which holds for the exact operations and not for doubles.
\<close>

datatype dbl = Fin real | PInf | NInf | NaN

fun isfinite :: "dbl \<Rightarrow> bool" where
  "isfinite (Fin a) = True"
| "isfinite _ = False"

fun isinf :: "dbl \<Rightarrow> bool" where
  "isinf PInf = True"
| "isinf NInf = True"
| "isinf _ = False"

fun val :: "dbl \<Rightarrow> real" where
  "val (Fin a) = a"
| "val _ = 0"

fun dneg :: "dbl \<Rightarrow> dbl" where
  "dneg (Fin a) = Fin (- a)"
| "dneg PInf = NInf"
| "dneg NInf = PInf"
| "dneg NaN = NaN"

fun dadd :: "dbl \<Rightarrow> dbl \<Rightarrow> dbl" where
  "dadd (Fin a) (Fin b) = Fin (a + b)"
| "dadd NaN _ = NaN"
| "dadd _ NaN = NaN"
| "dadd PInf NInf = NaN"
| "dadd NInf PInf = NaN"
| "dadd PInf _ = PInf"
| "dadd _ PInf = PInf"
| "dadd NInf _ = NInf"
| "dadd _ NInf = NInf"

fun dmul :: "dbl \<Rightarrow> dbl \<Rightarrow> dbl" where
  "dmul (Fin a) (Fin b) = Fin (a * b)"
| "dmul NaN _ = NaN"
| "dmul _ NaN = NaN"
| "dmul PInf (Fin b) = (if b = 0 then NaN else if 0 < b then PInf else NInf)"
| "dmul NInf (Fin b) = (if b = 0 then NaN else if 0 < b then NInf else PInf)"
| "dmul (Fin a) PInf = (if a = 0 then NaN else if 0 < a then PInf else NInf)"
| "dmul (Fin a) NInf = (if a = 0 then NaN else if 0 < a then NInf else PInf)"
| "dmul PInf PInf = PInf"
| "dmul NInf NInf = PInf"
| "dmul PInf NInf = NInf"
| "dmul NInf PInf = NInf"

fun ddiv :: "dbl \<Rightarrow> dbl \<Rightarrow> dbl" where
  "ddiv (Fin a) (Fin b) =
     (if b = 0 then (if a = 0 then NaN else if 0 < a then PInf else NInf)
      else Fin (a / b))"
| "ddiv NaN _ = NaN"
| "ddiv _ NaN = NaN"
| "ddiv (Fin a) _ = Fin 0"
| "ddiv PInf (Fin b) = (if 0 \<le> b then PInf else NInf)"
| "ddiv NInf (Fin b) = (if 0 \<le> b then NInf else PInf)"
| "ddiv _ _ = NaN"

fun dless :: "dbl \<Rightarrow> dbl \<Rightarrow> bool" where
  "dless (Fin a) (Fin b) = (a < b)"
| "dless NaN _ = False"
| "dless _ NaN = False"
| "dless _ NInf = False"
| "dless PInf _ = False"
| "dless _ _ = True"

fun dle :: "dbl \<Rightarrow> dbl \<Rightarrow> bool" where
  "dle (Fin a) (Fin b) = (a \<le> b)"
| "dle NaN _ = False"
| "dle _ NaN = False"
| "dle NInf _ = True"
| "dle _ PInf = True"
| "dle _ _ = False"

fun fabs :: "dbl \<Rightarrow> dbl" where
  "fabs (Fin a) = Fin \<bar>a\<bar>"
| "fabs NaN = NaN"
| "fabs _ = PInf"

fun dsqrt :: "dbl \<Rightarrow> dbl" where
  "dsqrt (Fin a) = (if a < 0 then NaN else Fin (sqrt a))"
| "dsqrt PInf = PInf"
| "dsqrt _ = NaN"

text \<open>\<^verbatim>\<open>fmin\<close> returns the other argument when one is NaN.\<close>

fun fmin :: "dbl \<Rightarrow> dbl \<Rightarrow> dbl" where
  "fmin NaN b = b"
| "fmin a NaN = a"
| "fmin a b = (if dless b a then b else a)"

instantiation dbl :: "{plus, minus, uminus, times, inverse, ord}"
begin

definition plus_dbl :: "dbl \<Rightarrow> dbl \<Rightarrow> dbl" where
  "plus_dbl = dadd"

definition uminus_dbl :: "dbl \<Rightarrow> dbl" where
  "uminus_dbl = dneg"

definition minus_dbl :: "dbl \<Rightarrow> dbl \<Rightarrow> dbl" where
  "minus_dbl a b = dadd a (dneg b)"

definition times_dbl :: "dbl \<Rightarrow> dbl \<Rightarrow> dbl" where
  "times_dbl = dmul"

definition divide_dbl :: "dbl \<Rightarrow> dbl \<Rightarrow> dbl" where
  "divide_dbl = ddiv"

definition inverse_dbl :: "dbl \<Rightarrow> dbl" where
  "inverse_dbl a = ddiv (Fin 1) a"

definition less_dbl :: "dbl \<Rightarrow> dbl \<Rightarrow> bool" where
  "less_dbl = dless"

definition less_eq_dbl :: "dbl \<Rightarrow> dbl \<Rightarrow> bool" where
  "less_eq_dbl = dle"

instance ..

end

text \<open>
  The casts \<^verbatim>\<open>(int)x\<close> and \<^verbatim>\<open>(double)k\<close>. The cast to int truncates towards zero. C leaves
  it undefined for NaN, the infinities and values outside the range of int; the model
  gives 0 for the special values and does not bound the range.
\<close>

fun to_int :: "dbl \<Rightarrow> int" where
  "to_int (Fin a) = (if 0 \<le> a then \<lfloor>a\<rfloor> else \<lceil>a\<rceil>)"
| "to_int _ = 0"

definition of_step :: "nat \<Rightarrow> dbl" where
  "of_step k = Fin (real k)"

section \<open>Slope limiters\<close>

text \<open>
  Modelled from the spec: \<^verbatim>\<open>minmod2\<close> and \<^verbatim>\<open>minmod3\<close> are declared in \<^verbatim>\<open>tools.h\<close>, which is
  not among the sources. Their definitions follow section 4.3 of the specification:
  zero when the signs of the arguments differ, otherwise the sign of the first argument
  times the least absolute value.
\<close>

definition dsign :: "dbl \<Rightarrow> dbl" where
  "dsign a = (if Fin 0 < a then Fin 1 else if a < Fin 0 then Fin (- 1) else Fin 0)"

definition minmod2 :: "dbl \<Rightarrow> dbl \<Rightarrow> dbl" where
  "minmod2 a b =
     (if dsign a \<noteq> dsign b then Fin 0 else dsign a * fmin (fabs a) (fabs b))"

definition minmod3 :: "dbl \<Rightarrow> dbl \<Rightarrow> dbl \<Rightarrow> dbl" where
  "minmod3 a b c =
     (if dsign a \<noteq> dsign b \<or> dsign a \<noteq> dsign c then Fin 0
      else dsign a * fmin (fmin (fabs a) (fabs b)) (fabs c))"

section \<open>The state of the Eulerian GRP stepper\<close>

text \<open>
  The constants that \<^verbatim>\<open>GRP_solver_EUL_source\<close> reads from the global array \<^verbatim>\<open>config\<close> when
  it is entered. \<^verbatim>\<open>N\<close> is named \<open>N_max\<close> and \<^verbatim>\<open>h\<close> is named \<open>h_cell\<close> here.
\<close>

record locals =
  t_all :: dbl
  eps :: dbl
  N_max :: int
  gamma :: dbl
  CFL :: dbl
  h_cell :: dbl
  bound :: int
  alpha :: dbl

definition read_config :: "(nat \<Rightarrow> dbl) \<Rightarrow> locals" where
  "read_config cfg =
     \<lparr>t_all = cfg 1, eps = cfg 4, N_max = to_int (cfg 5), gamma = cfg 6, CFL = cfg 7,
      h_cell = cfg 10, bound = to_int (cfg 17), alpha = cfg 41\<rparr>"

text \<open>The lines the stepper prints; the two numbers are the step \<open>k\<close> and the index \<open>j\<close>.\<close>

datatype msg =
    Alpha dbl
  | Initial_bc | Reflective_bc | Free_bc | Periodic_bc | Reflective_Free_bc
  | No_suitable_bc
  | Neg_Reconstruction nat nat | NaN_Reconstruction nat nat
  | Neg_STAR nat nat | NaN_STAR nat nat
  | Neg_Update nat nat | NaN_Update nat nat
  | Time_is_up nat

text \<open>
  The variables of the function that live across the statements of a time step. The
  index \<^verbatim>\<open>n\<close> is 1 throughout the function, so \<^verbatim>\<open>RHO[n-1]\<close> is row 0 (\<open>RHO0\<close>) and
  \<^verbatim>\<open>RHO[n]\<close> is row 1 (\<open>RHO1\<close>) of the caller's arrays. \<open>out\<close> collects the printed
  lines. The CPU timer and the progress display are not part of the model, and the
  allocations are taken to succeed.
\<close>

record st =
  RHO0 :: "dbl list"
  U0 :: "dbl list"
  P0 :: "dbl list"
  E0 :: "dbl list"
  RHO1 :: "dbl list"
  U1 :: "dbl list"
  P1 :: "dbl list"
  E1 :: "dbl list"
  s_rho :: "dbl list"
  s_u :: "dbl list"
  s_p :: "dbl list"
  U_next :: "dbl list"
  P_next :: "dbl list"
  RHO_next :: "dbl list"
  U_t :: "dbl list"
  P_t :: "dbl list"
  RHO_t :: "dbl list"
  F1 :: "dbl list"
  F2 :: "dbl list"
  F3 :: "dbl list"
  h_S_max :: dbl
  time_c :: dbl
  tau :: dbl
  find_bound :: bool
  UL :: dbl
  PL :: dbl
  RHOL :: dbl
  SUL :: dbl
  SPL :: dbl
  SRHOL :: dbl
  UR :: dbl
  PR :: dbl
  RHOR :: dbl
  SUR :: dbl
  SPR :: dbl
  SRHOR :: dbl
  config :: "nat \<Rightarrow> dbl"
  out :: "msg list"

text \<open>The sizes of the arrays for a mesh of \<open>m\<close> cells.\<close>

definition sized :: "nat \<Rightarrow> st \<Rightarrow> bool" where
  "sized m s \<longleftrightarrow>
     length (RHO0 s) = m \<and> length (U0 s) = m \<and> length (P0 s) = m \<and> length (E0 s) = m \<and>
     length (RHO1 s) = m \<and> length (U1 s) = m \<and> length (P1 s) = m \<and> length (E1 s) = m \<and>
     length (s_rho s) = m \<and> length (s_u s) = m \<and> length (s_p s) = m \<and>
     length (U_next s) = Suc m \<and> length (P_next s) = Suc m \<and> length (RHO_next s) = Suc m \<and>
     length (U_t s) = Suc m \<and> length (P_t s) = Suc m \<and> length (RHO_t s) = Suc m \<and>
     length (F1 s) = Suc m \<and> length (F2 s) = Suc m \<and> length (F3 s) = Suc m"

text \<open>
  \<^verbatim>\<open>linear_GRP_solver_Edir\<close> is not among the sources. The stepper is modelled for any
  solver: a function of the sixteen arguments of the call, in the order of the call,
  that returns the two output arrays \<open>(dire, mid)\<close>.
\<close>

type_synonym vec3 = "dbl \<times> dbl \<times> dbl"

type_synonym grp_solver =
  "dbl \<Rightarrow> dbl \<Rightarrow> dbl \<Rightarrow> dbl \<Rightarrow> dbl \<Rightarrow> dbl \<Rightarrow> dbl \<Rightarrow> dbl \<Rightarrow>
   dbl \<Rightarrow> dbl \<Rightarrow> dbl \<Rightarrow> dbl \<Rightarrow> dbl \<Rightarrow> dbl \<Rightarrow> vec3 \<times> vec3"

section \<open>One time step\<close>

subsection \<open>Boundary values (first switch on \<^verbatim>\<open>bound\<close>)\<close>

text \<open>
  \<open>Inl\<close> is the jump to \<^verbatim>\<open>return_NULL\<close>, with the state at the jump. For \<open>m = 0\<close> the C code
  reads index \<open>-1\<close>; the theorems below are about \<open>0 < m\<close>.
\<close>

definition bound_values :: "locals \<Rightarrow> nat \<Rightarrow> st \<Rightarrow> st + st" where
  "bound_values lc m s =
     (if bound lc = - 1 then
        (if find_bound s then Inr s
         else Inr (s\<lparr>out := out s @ [Initial_bc], find_bound := True,
                UL := U0 s ! 0, UR := U0 s ! (m - 1),
                PL := P0 s ! 0, PR := P0 s ! (m - 1),
                RHOL := RHO0 s ! 0, RHOR := RHO0 s ! (m - 1)\<rparr>))
      else if bound lc = - 2 then
        Inr (s\<lparr>out := (if find_bound s then out s else out s @ [Reflective_bc]),
               find_bound := True,
               UL := - (U0 s ! 0), UR := - (U0 s ! (m - 1)),
               PL := P0 s ! 0, PR := P0 s ! (m - 1),
               RHOL := RHO0 s ! 0, RHOR := RHO0 s ! (m - 1)\<rparr>)
      else if bound lc = - 4 then
        Inr (s\<lparr>out := (if find_bound s then out s else out s @ [Free_bc]),
               find_bound := True,
               UL := U0 s ! 0, UR := U0 s ! (m - 1),
               PL := P0 s ! 0, PR := P0 s ! (m - 1),
               RHOL := RHO0 s ! 0, RHOR := RHO0 s ! (m - 1)\<rparr>)
      else if bound lc = - 5 then
        Inr (s\<lparr>out := (if find_bound s then out s else out s @ [Periodic_bc]),
               find_bound := True,
               UL := U0 s ! (m - 1), UR := U0 s ! 0,
               PL := P0 s ! (m - 1), PR := P0 s ! 0,
               RHOL := RHO0 s ! (m - 1), RHOR := RHO0 s ! 0\<rparr>)
      else if bound lc = - 24 then
        Inr (s\<lparr>out := (if find_bound s then out s else out s @ [Reflective_Free_bc]),
               find_bound := True,
               UL := - (U0 s ! 0), UR := U0 s ! (m - 1),
               PL := P0 s ! 0, PR := P0 s ! (m - 1),
               RHOL := RHO0 s ! 0, RHOR := RHO0 s ! (m - 1)\<rparr>)
      else Inl (s\<lparr>out := out s @ [No_suitable_bc]\<rparr>))"

subsection \<open>Slopes of the cells\<close>

text \<open>The one-sided difference quotients of a row \<open>V\<close> with ghost values \<open>VL\<close>, \<open>VR\<close>.\<close>

definition quot_L :: "locals \<Rightarrow> dbl list \<Rightarrow> dbl \<Rightarrow> nat \<Rightarrow> dbl" where
  "quot_L lc V VL j =
     (if j \<noteq> 0 then (V ! j - V ! (j - 1)) / h_cell lc else (V ! j - VL) / h_cell lc)"

definition quot_R :: "locals \<Rightarrow> nat \<Rightarrow> dbl list \<Rightarrow> dbl \<Rightarrow> nat \<Rightarrow> dbl" where
  "quot_R lc m V VR j =
     (if int j < int m - 1 then (V ! (j + 1) - V ! j) / h_cell lc else (VR - V ! j) / h_cell lc)"

definition slope_cell :: "locals \<Rightarrow> nat \<Rightarrow> nat \<Rightarrow> nat \<Rightarrow> st \<Rightarrow> st" where
  "slope_cell lc m k j s =
     (let s_u_L = quot_L lc (U0 s) (UL s) j;
          s_p_L = quot_L lc (P0 s) (PL s) j;
          s_rho_L = quot_L lc (RHO0 s) (RHOL s) j;
          s_u_R = quot_R lc m (U0 s) (UR s) j;
          s_p_R = quot_R lc m (P0 s) (PR s) j;
          s_rho_R = quot_R lc m (RHO0 s) (RHOR s) j
      in if k = 1 then
           s\<lparr>s_u := (s_u s)[j := minmod2 s_u_L s_u_R],
             s_p := (s_p s)[j := minmod2 s_p_L s_p_R],
             s_rho := (s_rho s)[j := minmod2 s_rho_L s_rho_R]\<rparr>
         else
           s\<lparr>s_u := (s_u s)[j := minmod3 (alpha lc * s_u_L) (alpha lc * s_u_R) (s_u s ! j)],
             s_p := (s_p s)[j := minmod3 (alpha lc * s_p_L) (alpha lc * s_p_R) (s_p s ! j)],
             s_rho := (s_rho s)[j :=
                minmod3 (alpha lc * s_rho_L) (alpha lc * s_rho_R) (s_rho s ! j)]\<rparr>)"

subsection \<open>Boundary slopes (second switch on \<^verbatim>\<open>bound\<close>)\<close>

definition bound_slopes :: "locals \<Rightarrow> nat \<Rightarrow> st \<Rightarrow> st" where
  "bound_slopes lc m s =
     (if bound lc = - 2 then s\<lparr>SUL := - (s_u s ! 0), SUR := - (s_u s ! (m - 1))\<rparr>
      else if bound lc = - 5 then
        s\<lparr>SUL := s_u s ! (m - 1), SUR := s_u s ! 0,
          SPL := s_p s ! (m - 1), SPR := s_p s ! 0,
          SRHOL := s_rho s ! (m - 1), SRHOR := s_rho s ! 0\<rparr>
      else if bound lc = - 24 then s\<lparr>SUL := - (s_u s ! 0)\<rparr>
      else s)"

text \<open>The statements of a step up to the loop over the interfaces.\<close>

definition reconstruct :: "locals \<Rightarrow> nat \<Rightarrow> nat \<Rightarrow> st \<Rightarrow> st + st" where
  "reconstruct lc m k s =
     (case bound_values lc m (s\<lparr>h_S_max := PInf\<rparr>) of
        Inl a \<Rightarrow> Inl a
      | Inr s1 \<Rightarrow> Inr (bound_slopes lc m (fold (slope_cell lc m k) [0..<m] s1)))"

subsection \<open>The loop over the interfaces\<close>

text \<open>
  The states \<open>(rho, u, p)\<close> and the slopes \<open>(s_rho, s_u, s_p)\<close> on the two sides of the
  interface \<open>j\<close>, as the loop body computes them.
\<close>

definition state_L :: "locals \<Rightarrow> st \<Rightarrow> nat \<Rightarrow> vec3" where
  "state_L lc s j =
     (if j \<noteq> 0 then
        (RHO0 s ! (j - 1) + Fin 0.5 * h_cell lc * s_rho s ! (j - 1),
         U0 s ! (j - 1) + Fin 0.5 * h_cell lc * s_u s ! (j - 1),
         P0 s ! (j - 1) + Fin 0.5 * h_cell lc * s_p s ! (j - 1))
      else
        (RHOL s + Fin 0.5 * h_cell lc * SRHOL s,
         UL s + Fin 0.5 * h_cell lc * SUL s,
         PL s + Fin 0.5 * h_cell lc * SPL s))"

definition state_R :: "locals \<Rightarrow> nat \<Rightarrow> st \<Rightarrow> nat \<Rightarrow> vec3" where
  "state_R lc m s j =
     (if j < m then
        (RHO0 s ! j - Fin 0.5 * h_cell lc * s_rho s ! j,
         U0 s ! j - Fin 0.5 * h_cell lc * s_u s ! j,
         P0 s ! j - Fin 0.5 * h_cell lc * s_p s ! j)
      else
        (RHOR s + Fin 0.5 * h_cell lc * SRHOR s,
         UR s + Fin 0.5 * h_cell lc * SUR s,
         PR s + Fin 0.5 * h_cell lc * SPR s))"

definition slope_L :: "st \<Rightarrow> nat \<Rightarrow> vec3" where
  "slope_L s j =
     (if j \<noteq> 0 then (s_rho s ! (j - 1), s_u s ! (j - 1), s_p s ! (j - 1))
      else (SRHOL s, SUL s, SPL s))"

definition slope_R :: "nat \<Rightarrow> st \<Rightarrow> nat \<Rightarrow> vec3" where
  "slope_R m s j =
     (if j < m then (s_rho s ! j, s_u s ! j, s_p s ! j)
      else (SRHOR s, SUR s, SPR s))"

text \<open>The two tests on the reconstructed values.\<close>

definition neg_recon :: "locals \<Rightarrow> vec3 \<Rightarrow> vec3 \<Rightarrow> bool" where
  "neg_recon lc L R =
     (case (L, R) of ((rho_L, u_L, p_L), (rho_R, u_R, p_R)) \<Rightarrow>
        p_L < eps lc \<or> p_R < eps lc \<or> rho_L < eps lc \<or> rho_R < eps lc)"

definition nan_recon :: "vec3 \<Rightarrow> vec3 \<Rightarrow> bool" where
  "nan_recon L R =
     (case (L, R) of ((rho_L, u_L, p_L), (rho_R, u_R, p_R)) \<Rightarrow>
        \<not> isfinite p_L \<or> \<not> isfinite p_R \<or> \<not> isfinite u_L \<or> \<not> isfinite u_R \<or>
        \<not> isfinite rho_L \<or> \<not> isfinite rho_R)"

text \<open>The value of \<^verbatim>\<open>h/(fabs(u)+fabs(c))\<close> with \<^verbatim>\<open>c = sqrt(gamma * p / rho)\<close> for one side.\<close>

definition h_S :: "locals \<Rightarrow> vec3 \<Rightarrow> dbl" where
  "h_S lc W =
     (case W of (rho, u, p) \<Rightarrow>
        h_cell lc / (fabs u + fabs (dsqrt (gamma lc * p / rho))))"

text \<open>The call of the solver at the interface \<open>j\<close>; the result is \<open>(dire, mid)\<close>.\<close>

definition solve :: "grp_solver \<Rightarrow> locals \<Rightarrow> nat \<Rightarrow> st \<Rightarrow> nat \<Rightarrow> vec3 \<times> vec3" where
  "solve grp lc m s j =
     (case (state_L lc s j, state_R lc m s j, slope_L s j, slope_R m s j) of
        ((rho_L, u_L, p_L), (rho_R, u_R, p_R),
         (s_rho_L, s_u_L, s_p_L), (s_rho_R, s_u_R, s_p_R)) \<Rightarrow>
          grp rho_L rho_R s_rho_L s_rho_R u_L u_R s_u_L s_u_R p_L p_R s_p_L s_p_R
            (gamma lc) (eps lc))"

text \<open>The two tests on the star state, which print and overwrite \<^verbatim>\<open>time_c\<close>.\<close>

definition star_check :: "locals \<Rightarrow> nat \<Rightarrow> nat \<Rightarrow> vec3 \<Rightarrow> st \<Rightarrow> st" where
  "star_check lc k j mid s =
     (case mid of (rho_star, u_star, p_star) \<Rightarrow>
        (let s1 = (if p_star < eps lc
                   then s\<lparr>out := out s @ [Neg_STAR k j], time_c := t_all lc\<rparr> else s)
         in if \<not> isfinite u_star \<or> \<not> isfinite p_star
            then s1\<lparr>out := out s1 @ [NaN_STAR k j], time_c := t_all lc\<rparr> else s1))"

definition interface :: "grp_solver \<Rightarrow> locals \<Rightarrow> nat \<Rightarrow> nat \<Rightarrow> nat \<Rightarrow> st \<Rightarrow> st + st" where
  "interface grp lc m k j s =
     (if neg_recon lc (state_L lc s j) (state_R lc m s j)
      then Inl (s\<lparr>out := out s @ [Neg_Reconstruction k j]\<rparr>)
      else if nan_recon (state_L lc s j) (state_R lc m s j)
      then Inl (s\<lparr>out := out s @ [NaN_Reconstruction k j]\<rparr>)
      else
        (case solve grp lc m s j of
           ((d_rho, d_u, d_p), (rho_star, u_star, p_star)) \<Rightarrow>
             Inr ((star_check lc k j (rho_star, u_star, p_star) s)
               \<lparr>h_S_max := fmin (fmin (h_S_max s) (h_S lc (state_L lc s j)))
                             (h_S lc (state_R lc m s j)),
                RHO_next := (RHO_next s)[j := rho_star],
                U_next := (U_next s)[j := u_star],
                P_next := (P_next s)[j := p_star],
                RHO_t := (RHO_t s)[j := d_rho],
                U_t := (U_t s)[j := d_u],
                P_t := (P_t s)[j := d_p]\<rparr>)))"

text \<open>A loop whose body may jump to \<^verbatim>\<open>return_NULL\<close>.\<close>

fun loop_until :: "(nat \<Rightarrow> st \<Rightarrow> st + st) \<Rightarrow> nat list \<Rightarrow> st \<Rightarrow> st + st" where
  "loop_until f [] s = Inr s"
| "loop_until f (j # js) s =
     (case f j s of Inl a \<Rightarrow> Inl a | Inr s' \<Rightarrow> loop_until f js s')"

definition interfaces :: "grp_solver \<Rightarrow> locals \<Rightarrow> nat \<Rightarrow> nat \<Rightarrow> st \<Rightarrow> st + st" where
  "interfaces grp lc m k s = loop_until (interface grp lc m k) [0..<Suc m] s"

subsection \<open>The time step\<close>

definition time_step :: "locals \<Rightarrow> st \<Rightarrow> st" where
  "time_step lc s =
     (if isfinite (t_all lc) \<or> \<not> isfinite (config s 16) \<or> config s 16 \<le> Fin 0 then
        (let t = CFL lc * h_S_max s
         in s\<lparr>tau := (if time_c s + t > t_all lc - eps lc then t_all lc - time_c s else t)\<rparr>)
      else s)"

subsection \<open>The fluxes\<close>

definition flux_cell :: "locals \<Rightarrow> nat \<Rightarrow> st \<Rightarrow> st" where
  "flux_cell lc j s =
     (let rho_h = RHO_next s ! j + Fin 0.5 * tau s * RHO_t s ! j;
          u_h = U_next s ! j + Fin 0.5 * tau s * U_t s ! j;
          p_h = P_next s ! j + Fin 0.5 * tau s * P_t s ! j;
          f1 = rho_h * u_h;
          f2 = f1 * u_h + p_h;
          f3 = (gamma lc / (gamma lc - Fin 1)) * p_h + Fin 0.5 * f1 * u_h
      in s\<lparr>RHO_next := (RHO_next s)[j := rho_h + Fin 0.5 * tau s * RHO_t s ! j],
            U_next := (U_next s)[j := u_h + Fin 0.5 * tau s * U_t s ! j],
            P_next := (P_next s)[j := p_h + Fin 0.5 * tau s * P_t s ! j],
            F1 := (F1 s)[j := f1],
            F2 := (F2 s)[j := f2],
            F3 := (F3 s)[j := f3 * u_h]\<rparr>)"

subsection \<open>The update of the cells and of their slopes\<close>

definition update_check :: "locals \<Rightarrow> nat \<Rightarrow> nat \<Rightarrow> dbl \<Rightarrow> dbl \<Rightarrow> dbl \<Rightarrow> st \<Rightarrow> st" where
  "update_check lc k j rho u p s =
     (let s1 = (if p < eps lc \<or> rho < eps lc
                then s\<lparr>out := out s @ [Neg_Update k j], time_c := t_all lc\<rparr> else s)
      in if \<not> isfinite p \<or> \<not> isfinite u \<or> \<not> isfinite rho
         then s1\<lparr>out := out s1 @ [NaN_Update k j], time_c := t_all lc\<rparr> else s1)"

definition update_cell :: "locals \<Rightarrow> nat \<Rightarrow> nat \<Rightarrow> st \<Rightarrow> st" where
  "update_cell lc k j s =
     (let nu = tau s / h_cell lc;
          rho = RHO0 s ! j - nu * (F1 s ! (j + 1) - F1 s ! j);
          Mom = RHO0 s ! j * U0 s ! j - nu * (F2 s ! (j + 1) - F2 s ! j);
          Ene = RHO0 s ! j * E0 s ! j - nu * (F3 s ! (j + 1) - F3 s ! j);
          u = Mom / rho;
          e = Ene / rho;
          p = (Ene - Fin 0.5 * Mom * u) * (gamma lc - Fin 1)
      in (update_check lc k j rho u p s)
           \<lparr>RHO1 := (RHO1 s)[j := rho],
            U1 := (U1 s)[j := u],
            E1 := (E1 s)[j := e],
            P1 := (P1 s)[j := p],
            s_u := (s_u s)[j := (U_next s ! (j + 1) - U_next s ! j) / h_cell lc],
            s_p := (s_p s)[j := (P_next s ! (j + 1) - P_next s ! j) / h_cell lc],
            s_rho := (s_rho s)[j := (RHO_next s ! (j + 1) - RHO_next s ! j) / h_cell lc]\<rparr>)"

subsection \<open>The end of the step\<close>

text \<open>
  A step ends in the jump to \<^verbatim>\<open>return_NULL\<close> (\<open>Abort\<close>), in the \<^verbatim>\<open>break\<close> of the time check
  (\<open>Break\<close>), or at the end of the loop body (\<open>Next\<close>).
\<close>

datatype outcome = Abort st | Break st | Next st

fun state_of :: "outcome \<Rightarrow> st" where
  "state_of (Abort s) = s"
| "state_of (Break s) = s"
| "state_of (Next s) = s"

definition copy_cell :: "nat \<Rightarrow> st \<Rightarrow> st" where
  "copy_cell j s =
     s\<lparr>RHO0 := (RHO0 s)[j := RHO1 s ! j],
       U0 := (U0 s)[j := U1 s ! j],
       E0 := (E0 s)[j := E1 s ! j],
       P0 := (P0 s)[j := P1 s ! j]\<rparr>"

definition time_update :: "locals \<Rightarrow> nat \<Rightarrow> nat \<Rightarrow> st \<Rightarrow> outcome" where
  "time_update lc m k s =
     (let s1 = s\<lparr>time_c := time_c s + tau s\<rparr>
      in if time_c s1 > t_all lc - eps lc \<or> isinf (time_c s1)
         then Break (s1\<lparr>config := (config s1)(5 := of_step k)\<rparr>)
         else Next (fold copy_cell [0..<m] s1))"

text \<open>The state after the fluxes and after the update of the cells.\<close>

definition fluxes :: "locals \<Rightarrow> nat \<Rightarrow> st \<Rightarrow> st" where
  "fluxes lc m s = fold (flux_cell lc) [0..<Suc m] (time_step lc s)"

definition updates :: "locals \<Rightarrow> nat \<Rightarrow> nat \<Rightarrow> st \<Rightarrow> st" where
  "updates lc m k s = fold (update_cell lc k) [0..<m] (fluxes lc m s)"

definition GRP_step :: "grp_solver \<Rightarrow> locals \<Rightarrow> nat \<Rightarrow> nat \<Rightarrow> st \<Rightarrow> outcome" where
  "GRP_step grp lc m k s =
     (case reconstruct lc m k s of
        Inl a \<Rightarrow> Abort a
      | Inr s1 \<Rightarrow>
          (case interfaces grp lc m k s1 of
             Inl a \<Rightarrow> Abort a
           | Inr s2 \<Rightarrow> time_update lc m k (updates lc m k s2)))"

section \<open>The main loop and the function\<close>

function main_loop :: "grp_solver \<Rightarrow> locals \<Rightarrow> nat \<Rightarrow> nat \<Rightarrow> st \<Rightarrow> outcome" where
  "main_loop grp lc m k s =
     (if int k \<le> N_max lc then
        (case GRP_step grp lc m k s of
           Abort a \<Rightarrow> Abort a
         | Break b \<Rightarrow> Break (b\<lparr>out := out b @ [Time_is_up k]\<rparr>)
         | Next s' \<Rightarrow> main_loop grp lc m (Suc k) s')
      else Next (s\<lparr>out := out s @ [Time_is_up k]\<rparr>))"
  by pat_completeness auto
termination
  by (relation "measure (\<lambda>(grp, lc, m, k, s). nat (N_max lc + 1 - int k))") auto

text \<open>
  The state at the entry of the main loop, for the caller's rows 0 and 1 of the cell
  arrays. \<^verbatim>\<open>calloc\<close> zeroes the slopes. The arrays from \<^verbatim>\<open>malloc\<close> and the ghost values
  are indeterminate in C until they are first assigned; they start as NaN here.
\<close>

definition entry :: "(nat \<Rightarrow> dbl) \<Rightarrow> nat \<Rightarrow> dbl list \<times> dbl list \<times> dbl list \<times> dbl list \<Rightarrow>
    dbl list \<times> dbl list \<times> dbl list \<times> dbl list \<Rightarrow> st" where
  "entry cfg m row0 row1 =
     (case (row0, row1) of ((rho0, u0, p0, e0), (rho1, u1, p1, e1)) \<Rightarrow>
       \<lparr>RHO0 = rho0, U0 = u0, P0 = p0, E0 = e0,
        RHO1 = rho1, U1 = u1, P1 = p1, E1 = e1,
        s_rho = replicate m (Fin 0), s_u = replicate m (Fin 0), s_p = replicate m (Fin 0),
        U_next = replicate (Suc m) NaN, P_next = replicate (Suc m) NaN,
        RHO_next = replicate (Suc m) NaN,
        U_t = replicate (Suc m) NaN, P_t = replicate (Suc m) NaN,
        RHO_t = replicate (Suc m) NaN,
        F1 = replicate (Suc m) NaN, F2 = replicate (Suc m) NaN, F3 = replicate (Suc m) NaN,
        h_S_max = NaN, time_c = Fin 0, tau = cfg 16, find_bound = False,
        UL = NaN, PL = NaN, RHOL = NaN, SUL = Fin 0, SPL = Fin 0, SRHOL = Fin 0,
        UR = NaN, PR = NaN, RHOR = NaN, SUR = Fin 0, SPR = Fin 0, SRHOR = Fin 0,
        config = cfg, out = [Alpha (cfg 41)]\<rparr>)"

definition GRP_solver_EUL_source ::
  "grp_solver \<Rightarrow> (nat \<Rightarrow> dbl) \<Rightarrow> nat \<Rightarrow> dbl list \<times> dbl list \<times> dbl list \<times> dbl list \<Rightarrow>
    dbl list \<times> dbl list \<times> dbl list \<times> dbl list \<Rightarrow> outcome" where
  "GRP_solver_EUL_source grp cfg m row0 row1 =
     main_loop grp (read_config cfg) m 1 (entry cfg m row0 row1)"

section \<open>The states of a step, in closed form\<close>

text \<open>
  The loops of a step, written as the state they leave behind: \<open>recon\<close> after the ghost
  values, the slopes and the ghost slopes, \<open>solved\<close> after the first \<open>n\<close> interfaces, \<open>fluxed\<close>
  after the fluxes, \<open>updated\<close> after the first \<open>n\<close> cells, \<open>stepped\<close> after all of them. The
  lemmas of the next part prove that the loops compute these states.
\<close>

definition lim :: "locals \<Rightarrow> nat \<Rightarrow> nat \<Rightarrow> dbl list \<Rightarrow> dbl \<Rightarrow> dbl \<Rightarrow> dbl list \<Rightarrow> nat \<Rightarrow> dbl" where
  "lim lc m k V VL VR sv j =
     (if k = 1 then minmod2 (quot_L lc V VL j) (quot_R lc m V VR j)
      else minmod3 (alpha lc * quot_L lc V VL j) (alpha lc * quot_R lc m V VR j) (sv ! j))"

definition star_bad :: "locals \<Rightarrow> vec3 \<Rightarrow> bool" where
  "star_bad lc mid =
     (case mid of (rho_star, u_star, p_star) \<Rightarrow>
        p_star < eps lc \<or> \<not> isfinite u_star \<or> \<not> isfinite p_star)"

definition star_msgs :: "locals \<Rightarrow> nat \<Rightarrow> nat \<Rightarrow> vec3 \<Rightarrow> msg list" where
  "star_msgs lc k j mid =
     (case mid of (rho_star, u_star, p_star) \<Rightarrow>
        (if p_star < eps lc then [Neg_STAR k j] else []) @
        (if \<not> isfinite u_star \<or> \<not> isfinite p_star then [NaN_STAR k j] else []))"

definition bad_recon :: "locals \<Rightarrow> nat \<Rightarrow> st \<Rightarrow> nat \<Rightarrow> bool" where
  "bad_recon lc m s j \<longleftrightarrow>
     neg_recon lc (state_L lc s j) (state_R lc m s j) \<or>
     nan_recon (state_L lc s j) (state_R lc m s j)"

definition recon_msg :: "locals \<Rightarrow> nat \<Rightarrow> nat \<Rightarrow> st \<Rightarrow> nat \<Rightarrow> msg" where
  "recon_msg lc m k s j =
     (if neg_recon lc (state_L lc s j) (state_R lc m s j)
      then Neg_Reconstruction k j else NaN_Reconstruction k j)"

definition mid_at :: "grp_solver \<Rightarrow> locals \<Rightarrow> nat \<Rightarrow> st \<Rightarrow> nat \<Rightarrow> vec3" where
  "mid_at grp lc m s j = snd (solve grp lc m s j)"

definition dire_at :: "grp_solver \<Rightarrow> locals \<Rightarrow> nat \<Rightarrow> st \<Rightarrow> nat \<Rightarrow> vec3" where
  "dire_at grp lc m s j = fst (solve grp lc m s j)"

definition solved :: "grp_solver \<Rightarrow> locals \<Rightarrow> nat \<Rightarrow> nat \<Rightarrow> nat \<Rightarrow> st \<Rightarrow> st" where
  "solved grp lc m k n s =
     s\<lparr>h_S_max := fold (\<lambda>j a. fmin (fmin a (h_S lc (state_L lc s j))) (h_S lc (state_R lc m s j)))
                     [0..<n] (h_S_max s),
       RHO_next := map (\<lambda>j. fst (mid_at grp lc m s j)) [0..<n] @ drop n (RHO_next s),
       U_next := map (\<lambda>j. fst (snd (mid_at grp lc m s j))) [0..<n] @ drop n (U_next s),
       P_next := map (\<lambda>j. snd (snd (mid_at grp lc m s j))) [0..<n] @ drop n (P_next s),
       RHO_t := map (\<lambda>j. fst (dire_at grp lc m s j)) [0..<n] @ drop n (RHO_t s),
       U_t := map (\<lambda>j. fst (snd (dire_at grp lc m s j))) [0..<n] @ drop n (U_t s),
       P_t := map (\<lambda>j. snd (snd (dire_at grp lc m s j))) [0..<n] @ drop n (P_t s),
       out := out s @ concat (map (\<lambda>j. star_msgs lc k j (mid_at grp lc m s j)) [0..<n]),
       time_c := (if \<exists>j<n. star_bad lc (mid_at grp lc m s j) then t_all lc else time_c s)\<rparr>"

definition half_rho :: "st \<Rightarrow> nat \<Rightarrow> dbl" where
  "half_rho s j = RHO_next s ! j + Fin 0.5 * tau s * RHO_t s ! j"

definition half_u :: "st \<Rightarrow> nat \<Rightarrow> dbl" where
  "half_u s j = U_next s ! j + Fin 0.5 * tau s * U_t s ! j"

definition half_p :: "st \<Rightarrow> nat \<Rightarrow> dbl" where
  "half_p s j = P_next s ! j + Fin 0.5 * tau s * P_t s ! j"

definition flux1 :: "st \<Rightarrow> nat \<Rightarrow> dbl" where
  "flux1 s j = half_rho s j * half_u s j"

definition flux2 :: "st \<Rightarrow> nat \<Rightarrow> dbl" where
  "flux2 s j = flux1 s j * half_u s j + half_p s j"

definition flux3 :: "locals \<Rightarrow> st \<Rightarrow> nat \<Rightarrow> dbl" where
  "flux3 lc s j =
     ((gamma lc / (gamma lc - Fin 1)) * half_p s j + Fin 0.5 * flux1 s j * half_u s j) * half_u s j"

definition fluxed :: "locals \<Rightarrow> nat \<Rightarrow> st \<Rightarrow> st" where
  "fluxed lc n s =
     s\<lparr>RHO_next := map (\<lambda>j. half_rho s j + Fin 0.5 * tau s * RHO_t s ! j) [0..<n] @ drop n (RHO_next s),
       U_next := map (\<lambda>j. half_u s j + Fin 0.5 * tau s * U_t s ! j) [0..<n] @ drop n (U_next s),
       P_next := map (\<lambda>j. half_p s j + Fin 0.5 * tau s * P_t s ! j) [0..<n] @ drop n (P_next s),
       F1 := map (flux1 s) [0..<n] @ drop n (F1 s),
       F2 := map (flux2 s) [0..<n] @ drop n (F2 s),
       F3 := map (flux3 lc s) [0..<n] @ drop n (F3 s)\<rparr>"

definition new_rho :: "locals \<Rightarrow> st \<Rightarrow> nat \<Rightarrow> dbl" where
  "new_rho lc s j = RHO0 s ! j - tau s / h_cell lc * (F1 s ! (j + 1) - F1 s ! j)"

definition new_Mom :: "locals \<Rightarrow> st \<Rightarrow> nat \<Rightarrow> dbl" where
  "new_Mom lc s j = RHO0 s ! j * U0 s ! j - tau s / h_cell lc * (F2 s ! (j + 1) - F2 s ! j)"

definition new_Ene :: "locals \<Rightarrow> st \<Rightarrow> nat \<Rightarrow> dbl" where
  "new_Ene lc s j = RHO0 s ! j * E0 s ! j - tau s / h_cell lc * (F3 s ! (j + 1) - F3 s ! j)"

definition new_u :: "locals \<Rightarrow> st \<Rightarrow> nat \<Rightarrow> dbl" where
  "new_u lc s j = new_Mom lc s j / new_rho lc s j"

definition new_e :: "locals \<Rightarrow> st \<Rightarrow> nat \<Rightarrow> dbl" where
  "new_e lc s j = new_Ene lc s j / new_rho lc s j"

definition new_p :: "locals \<Rightarrow> st \<Rightarrow> nat \<Rightarrow> dbl" where
  "new_p lc s j =
     (new_Ene lc s j - Fin 0.5 * new_Mom lc s j * new_u lc s j) * (gamma lc - Fin 1)"

definition upd_neg :: "locals \<Rightarrow> st \<Rightarrow> nat \<Rightarrow> bool" where
  "upd_neg lc s j \<longleftrightarrow> new_p lc s j < eps lc \<or> new_rho lc s j < eps lc"

definition upd_nan :: "locals \<Rightarrow> st \<Rightarrow> nat \<Rightarrow> bool" where
  "upd_nan lc s j \<longleftrightarrow>
     \<not> isfinite (new_p lc s j) \<or> \<not> isfinite (new_u lc s j) \<or> \<not> isfinite (new_rho lc s j)"

definition upd_msgs :: "locals \<Rightarrow> nat \<Rightarrow> st \<Rightarrow> nat \<Rightarrow> msg list" where
  "upd_msgs lc k s j =
     (if upd_neg lc s j then [Neg_Update k j] else []) @
     (if upd_nan lc s j then [NaN_Update k j] else [])"

definition upd_bad :: "locals \<Rightarrow> st \<Rightarrow> nat \<Rightarrow> bool" where
  "upd_bad lc s j \<longleftrightarrow> upd_neg lc s j \<or> upd_nan lc s j"

definition updated :: "locals \<Rightarrow> nat \<Rightarrow> nat \<Rightarrow> st \<Rightarrow> st" where
  "updated lc k n s =
     s\<lparr>RHO1 := map (new_rho lc s) [0..<n] @ drop n (RHO1 s),
       U1 := map (new_u lc s) [0..<n] @ drop n (U1 s),
       E1 := map (new_e lc s) [0..<n] @ drop n (E1 s),
       P1 := map (new_p lc s) [0..<n] @ drop n (P1 s),
       s_u := map (\<lambda>j. (U_next s ! (j + 1) - U_next s ! j) / h_cell lc) [0..<n] @ drop n (s_u s),
       s_p := map (\<lambda>j. (P_next s ! (j + 1) - P_next s ! j) / h_cell lc) [0..<n] @ drop n (s_p s),
       s_rho := map (\<lambda>j. (RHO_next s ! (j + 1) - RHO_next s ! j) / h_cell lc) [0..<n]
                  @ drop n (s_rho s),
       out := out s @ concat (map (upd_msgs lc k s) [0..<n]),
       time_c := (if \<exists>j<n. upd_bad lc s j then t_all lc else time_c s)\<rparr>"

definition copied :: "nat \<Rightarrow> st \<Rightarrow> st" where
  "copied n s =
     s\<lparr>RHO0 := map ((!) (RHO1 s)) [0..<n] @ drop n (RHO0 s),
       U0 := map ((!) (U1 s)) [0..<n] @ drop n (U0 s),
       E0 := map ((!) (E1 s)) [0..<n] @ drop n (E0 s),
       P0 := map ((!) (P1 s)) [0..<n] @ drop n (P0 s)\<rparr>"

definition sloped :: "locals \<Rightarrow> nat \<Rightarrow> nat \<Rightarrow> st \<Rightarrow> st" where
  "sloped lc m k s =
     s\<lparr>s_u := map (lim lc m k (U0 s) (UL s) (UR s) (s_u s)) [0..<m],
       s_p := map (lim lc m k (P0 s) (PL s) (PR s) (s_p s)) [0..<m],
       s_rho := map (lim lc m k (RHO0 s) (RHOL s) (RHOR s) (s_rho s)) [0..<m]\<rparr>"

definition ghost_ok :: "locals \<Rightarrow> bool" where
  "ghost_ok lc \<longleftrightarrow> bound lc \<in> {- 1, - 2, - 4, - 5, - 24}"

definition ghosted :: "locals \<Rightarrow> nat \<Rightarrow> st \<Rightarrow> st" where
  "ghosted lc m s = (case bound_values lc m s of Inl a \<Rightarrow> a | Inr g \<Rightarrow> g)"

definition recon :: "locals \<Rightarrow> nat \<Rightarrow> nat \<Rightarrow> st \<Rightarrow> st" where
  "recon lc m k s = bound_slopes lc m (sloped lc m k (ghosted lc m (s\<lparr>h_S_max := PInf\<rparr>)))"

definition time_up :: "locals \<Rightarrow> st \<Rightarrow> bool" where
  "time_up lc u \<longleftrightarrow>
     time_c u + tau u > t_all lc - eps lc \<or> isinf (time_c u + tau u)"

definition stepped :: "grp_solver \<Rightarrow> locals \<Rightarrow> nat \<Rightarrow> nat \<Rightarrow> st \<Rightarrow> st" where
  "stepped grp lc m k r =
     updated lc k m (fluxed lc (Suc m) (time_step lc (solved grp lc m k (Suc m) r)))"

definition half_state :: "grp_solver \<Rightarrow> locals \<Rightarrow> nat \<Rightarrow> st \<Rightarrow> dbl \<Rightarrow> nat \<Rightarrow> vec3" where
  "half_state grp lc m r t j =
     (case solve grp lc m r j of
        ((d_rho, d_u, d_p), (rho_star, u_star, p_star)) \<Rightarrow>
          (rho_star + Fin 0.5 * t * d_rho, u_star + Fin 0.5 * t * d_u,
           p_star + Fin 0.5 * t * d_p))"

definition full_state :: "grp_solver \<Rightarrow> locals \<Rightarrow> nat \<Rightarrow> st \<Rightarrow> dbl \<Rightarrow> nat \<Rightarrow> vec3" where
  "full_state grp lc m r t j =
     (case solve grp lc m r j of
        ((d_rho, d_u, d_p), (rho_star, u_star, p_star)) \<Rightarrow>
          (rho_star + Fin 0.5 * t * d_rho + Fin 0.5 * t * d_rho,
           u_star + Fin 0.5 * t * d_u + Fin 0.5 * t * d_u,
           p_star + Fin 0.5 * t * d_p + Fin 0.5 * t * d_p))"

section \<open>Runs of several steps\<close>

text \<open>
  The state at the start of step \<open>n + 1\<close>, when the steps \<open>1..n\<close> all went on to their next
  step, and two properties that every such state has.
\<close>

fun steps :: "grp_solver \<Rightarrow> locals \<Rightarrow> nat \<Rightarrow> nat \<Rightarrow> st \<Rightarrow> st option" where
  "steps grp lc m 0 s = Some s"
| "steps grp lc m (Suc n) s =
     (case steps grp lc m n s of
        None \<Rightarrow> None
      | Some s' \<Rightarrow>
          (case GRP_step grp lc m (Suc n) s' of
             Abort a \<Rightarrow> None | Break b \<Rightarrow> None | Next s'' \<Rightarrow> Some s''))"

definition zero_slopes :: "locals \<Rightarrow> st \<Rightarrow> bool" where
  "zero_slopes lc s \<longleftrightarrow>
     (bound lc \<noteq> - 5 \<longrightarrow>
        SPL s = Fin 0 \<and> SPR s = Fin 0 \<and> SRHOL s = Fin 0 \<and> SRHOR s = Fin 0) \<and>
     (bound lc \<noteq> - 5 \<and> bound lc \<noteq> - 2 \<longrightarrow> SUR s = Fin 0) \<and>
     (bound lc \<noteq> - 5 \<and> bound lc \<noteq> - 2 \<and> bound lc \<noteq> - 24 \<longrightarrow> SUL s = Fin 0)"

definition captured :: "locals \<Rightarrow> nat \<Rightarrow> dbl list \<Rightarrow> dbl list \<Rightarrow> dbl list \<Rightarrow> st \<Rightarrow> bool" where
  "captured lc m rho0 u0 p0 s \<longleftrightarrow>
     (bound lc = - 1 \<longrightarrow>
        (if find_bound s
         then UL s = u0 ! 0 \<and> UR s = u0 ! (m - 1) \<and> PL s = p0 ! 0 \<and> PR s = p0 ! (m - 1) \<and>
              RHOL s = rho0 ! 0 \<and> RHOR s = rho0 ! (m - 1)
         else U0 s = u0 \<and> P0 s = p0 \<and> RHO0 s = rho0))"

section \<open>Stand-ins for the solver\<close>

text \<open>
  \<^verbatim>\<open>linear_GRP_solver_Edir\<close> is not among the sources, and the step takes it as the
  parameter \<open>grp\<close>. The examples need a function in its place. The first returns the left
  state as the state at the interface and the jump across the interface as its time
  derivative.
\<close>

definition jump_solver :: grp_solver where
  "jump_solver rho_L rho_R s_rho_L s_rho_R u_L u_R s_u_L s_u_R p_L p_R s_p_L s_p_R gam ep =
     ((rho_R - rho_L, u_R - u_L, p_R - p_L), (rho_L, u_L, p_L))"

text \<open>
  The second returns a star pressure of zero: the test on the star state then fails at
  every interface.
\<close>

definition vacuum_solver :: grp_solver where
  "vacuum_solver rho_L rho_R s_rho_L s_rho_R u_L u_R s_u_L s_u_R p_L p_R s_p_L s_p_R gam ep =
     ((Fin 0, Fin 0, Fin 0), (rho_L, u_L, Fin 0))"


section \<open>Examples\<close>

text \<open>
  Example A: two equal cells moving to the right between reflecting walls, \<open>h = 1\<close>,
  \<open>gamma = 2\<close>, \<open>CFL = 1 / 2\<close>, \<open>t_all = 1\<close>, \<open>eps = 1 / 1000\<close>, at most 10 steps. \<open>endA\<close> is the
  state after its first step, which the update of cell 0 fails.
\<close>

definition cfgA :: "nat \<Rightarrow> dbl" where
  "cfgA = (\<lambda>_. PInf)(1 := Fin 1, 4 := Fin (1 / 1000), 5 := Fin 10, 6 := Fin 2,
      7 := Fin (1 / 2), 10 := Fin 1, 17 := Fin (- 2), 41 := Fin 1)"

definition rowA :: "dbl list \<times> dbl list \<times> dbl list \<times> dbl list" where
  "rowA = ([Fin 2, Fin 2], [Fin 1, Fin 1], [Fin 1, Fin 1], [Fin 1, Fin 1])"

definition lcA :: locals where
  "lcA = read_config cfgA"

definition stA :: st where
  "stA = entry cfgA 2 rowA rowA"

definition endA :: st where
  "endA = stA\<lparr>h_S_max := Fin (1 / 2), tau := Fin (1 / 4), find_bound := True,
        UL := Fin (- 1), UR := Fin (- 1), PL := Fin 1, PR := Fin 1, RHOL := Fin 2, RHOR := Fin 2,
        RHO_next := [Fin 2, Fin 2, Fin 2], U_next := [Fin (- 1 / 2), Fin 1, Fin (1 / 2)],
        P_next := [Fin 1, Fin 1, Fin 1],
        RHO_t := [Fin 0, Fin 0, Fin 0], U_t := [Fin 2, Fin 0, Fin (- 2)],
        P_t := [Fin 0, Fin 0, Fin 0],
        F1 := [Fin (- 3 / 2), Fin 2, Fin (3 / 2)],
        F2 := [Fin (17 / 8), Fin 3, Fin (17 / 8)],
        F3 := [Fin (- 123 / 64), Fin 3, Fin (123 / 64)],
        RHO1 := [Fin (9 / 8), Fin (17 / 8)], U1 := [Fin (19 / 12), Fin (71 / 68)],
        E1 := [Fin (197 / 288), Fin (581 / 544)], P1 := [Fin (- 41 / 64), Fin (1209 / 1088)],
        s_u := [Fin (3 / 2), Fin (- 1 / 2)], s_p := [Fin 0, Fin 0], s_rho := [Fin 0, Fin 0],
        out := [Alpha (Fin 1), Reflective_bc, Neg_Update 1 0], time_c := Fin (5 / 4),
        config := cfgA(5 := Fin 1)\<rparr>"

text \<open>
  Example B: three cells of density 2, 3, 1 at rest with periodic boundaries.
\<close>

definition cfgB :: "nat \<Rightarrow> dbl" where
  "cfgB = cfgA(17 := Fin (- 5))"

definition rowB :: "dbl list \<times> dbl list \<times> dbl list \<times> dbl list" where
  "rowB = ([Fin 2, Fin 3, Fin 1], [Fin 0, Fin 0, Fin 0], [Fin 1, Fin 1, Fin 1],
           [Fin (1 / 2), Fin (1 / 3), Fin 1])"

definition lcB :: locals where
  "lcB = read_config cfgB"

definition stB :: st where
  "stB = entry cfgB 3 rowB rowB"

text \<open>
  Example C: two equal cells at rest, free boundaries, and the cell width \<open>h = - 1\<close>, which
  makes \<^verbatim>\<open>h_S_max\<close> negative. \<open>nextC\<close> is the state after its first step.
\<close>

definition cfgC :: "nat \<Rightarrow> dbl" where
  "cfgC = cfgA(10 := Fin (- 1), 17 := Fin (- 4))"

definition rowC :: "dbl list \<times> dbl list \<times> dbl list \<times> dbl list" where
  "rowC = ([Fin 2, Fin 2], [Fin 0, Fin 0], [Fin 1, Fin 1], [Fin (1 / 2), Fin (1 / 2)])"

definition lcC :: locals where
  "lcC = read_config cfgC"

definition stC :: st where
  "stC = entry cfgC 2 rowC rowC"

definition nextC :: st where
  "nextC = stC\<lparr>h_S_max := Fin (- 1), tau := Fin (- 1 / 2), find_bound := True,
        UL := Fin 0, UR := Fin 0, PL := Fin 1, PR := Fin 1, RHOL := Fin 2, RHOR := Fin 2,
        RHO_next := [Fin 2, Fin 2, Fin 2], U_next := [Fin 0, Fin 0, Fin 0],
        P_next := [Fin 1, Fin 1, Fin 1],
        RHO_t := [Fin 0, Fin 0, Fin 0], U_t := [Fin 0, Fin 0, Fin 0],
        P_t := [Fin 0, Fin 0, Fin 0],
        F1 := [Fin 0, Fin 0, Fin 0], F2 := [Fin 1, Fin 1, Fin 1], F3 := [Fin 0, Fin 0, Fin 0],
        out := [Alpha (Fin 1), Free_bc], time_c := Fin (- 1 / 2)\<rparr>"

text \<open>
  Example D: the cells of example C with \<open>h = 1\<close> and \<open>t_all = 1\<close>. Nothing moves; the two
  steps of \<open>tau = 1 / 2\<close> reach \<open>t_all\<close> without any error. \<open>nextD\<close> and \<open>endD\<close> are the states
  after the first and the second step, \<open>finD\<close> the state the function returns.
\<close>

definition cfgD :: "nat \<Rightarrow> dbl" where
  "cfgD = cfgA(17 := Fin (- 4))"

definition lcD :: locals where
  "lcD = read_config cfgD"

definition stD :: st where
  "stD = entry cfgD 2 rowC rowC"

definition nextD :: st where
  "nextD = stD\<lparr>h_S_max := Fin 1, tau := Fin (1 / 2), find_bound := True,
        UL := Fin 0, UR := Fin 0, PL := Fin 1, PR := Fin 1, RHOL := Fin 2, RHOR := Fin 2,
        RHO_next := [Fin 2, Fin 2, Fin 2], U_next := [Fin 0, Fin 0, Fin 0],
        P_next := [Fin 1, Fin 1, Fin 1],
        RHO_t := [Fin 0, Fin 0, Fin 0], U_t := [Fin 0, Fin 0, Fin 0],
        P_t := [Fin 0, Fin 0, Fin 0],
        F1 := [Fin 0, Fin 0, Fin 0], F2 := [Fin 1, Fin 1, Fin 1], F3 := [Fin 0, Fin 0, Fin 0],
        s_u := [Fin 0, Fin 0], s_p := [Fin 0, Fin 0], s_rho := [Fin 0, Fin 0],
        out := [Alpha (Fin 1), Free_bc], time_c := Fin (1 / 2)\<rparr>"

definition endD :: st where
  "endD = nextD\<lparr>time_c := Fin 1, config := cfgD(5 := Fin 2)\<rparr>"

definition finD :: st where
  "finD = endD\<lparr>out := [Alpha (Fin 1), Free_bc, Time_is_up 2]\<rparr>"

text \<open>
  Example E: no total time and the fixed step \<open>tau = 1 / 10\<close>, boundary values kept from
  the initial row. \<open>nextE\<close> is the state after its first step.
\<close>

definition cfgE :: "nat \<Rightarrow> dbl" where
  "cfgE = cfgA(1 := PInf, 16 := Fin (1 / 10), 17 := Fin (- 1))"

definition rowE :: "dbl list \<times> dbl list \<times> dbl list \<times> dbl list" where
  "rowE = ([Fin 2, Fin 2], [Fin 0, Fin 1], [Fin 1, Fin 1], [Fin (1 / 2), Fin 1])"

definition lcE :: locals where
  "lcE = read_config cfgE"

definition stE :: st where
  "stE = entry cfgE 2 rowE rowE"

definition nextE :: st where
  "nextE = stE\<lparr>h_S_max := Fin (1 / 2), find_bound := True,
        UL := Fin 0, UR := Fin 1, PL := Fin 1, PR := Fin 1, RHOL := Fin 2, RHOR := Fin 2,
        RHO_next := [Fin 2, Fin 2, Fin 2], U_next := [Fin 0, Fin (1 / 10), Fin 1],
        P_next := [Fin 1, Fin 1, Fin 1],
        RHO_t := [Fin 0, Fin 0, Fin 0], U_t := [Fin 0, Fin 1, Fin 0],
        P_t := [Fin 0, Fin 0, Fin 0],
        F1 := [Fin 0, Fin (1 / 10), Fin 2],
        F2 := [Fin 1, Fin (201 / 200), Fin 3],
        F3 := [Fin 0, Fin (801 / 8000), Fin 3],
        RHO1 := [Fin (199 / 100), Fin (181 / 100)], U1 := [Fin (- 1 / 3980), Fin (3601 / 3620)],
        E1 := [Fin (79199 / 159200), Fin (136801 / 144800)],
        P1 := [Fin (78803 / 79600), Fin (589689 / 724000)],
        RHO0 := [Fin (199 / 100), Fin (181 / 100)], U0 := [Fin (- 1 / 3980), Fin (3601 / 3620)],
        E0 := [Fin (79199 / 159200), Fin (136801 / 144800)],
        P0 := [Fin (78803 / 79600), Fin (589689 / 724000)],
        s_u := [Fin (1 / 10), Fin (9 / 10)], s_p := [Fin 0, Fin 0], s_rho := [Fin 0, Fin 0],
        out := [Alpha (Fin 1), Initial_bc], time_c := Fin (1 / 10)\<rparr>"

text \<open>
  Example F: example A with \<open>eps = 5\<close>, above every pressure, so that the reconstruction at
  the first interface fails. \<open>abortF\<close> is the state in which the function returns.
\<close>

definition cfgF :: "nat \<Rightarrow> dbl" where
  "cfgF = cfgA(4 := Fin 5)"

definition lcF :: locals where
  "lcF = read_config cfgF"

definition stF :: st where
  "stF = entry cfgF 2 rowA rowA"

definition abortF :: st where
  "abortF = stF\<lparr>h_S_max := PInf,
         out := [Alpha (Fin 1), Reflective_bc, Neg_Reconstruction 1 0], find_bound := True,
         UL := Fin (- 1), UR := Fin (- 1), PL := Fin 1, PR := Fin 1, RHOL := Fin 2, RHOR := Fin 2,
         s_u := [Fin 0, Fin 0], s_p := [Fin 0, Fin 0], s_rho := [Fin 0, Fin 0],
         SUL := Fin 0, SUR := Fin 0\<rparr>"

text \<open>
  Example G: two cells moving apart, free boundaries, no total time and the fixed step
  \<open>tau = 1\<close>. The step empties both cells: the new densities are 0. \<open>endG\<close> is the state
  after the step.
\<close>

definition cfgG :: "nat \<Rightarrow> dbl" where
  "cfgG = cfgA(1 := PInf, 16 := Fin 1, 17 := Fin (- 4))"


definition lcG :: locals where
  "lcG = read_config cfgG"



text \<open>
  Example H: example A with \<open>t_all = 257 / 1024\<close> and \<open>eps = 1 / 512\<close>, so that
  \<open>CFL * h_S_max = 1 / 4\<close> lies between \<open>t_all - eps\<close> and \<open>t_all\<close>.
\<close>

definition cfgH :: "nat \<Rightarrow> dbl" where
  "cfgH = cfgA(1 := Fin (257 / 1024), 4 := Fin (1 / 512))"

definition lcH :: locals where
  "lcH = read_config cfgH"

definition stH :: st where
  "stH = entry cfgH 2 rowA rowA"

text \<open>
  Example T: example A with the boundary tag \<open>b\<close>.
\<close>

definition cfgT :: "real \<Rightarrow> nat \<Rightarrow> dbl" where
  "cfgT b = cfgA(17 := Fin b)"

definition lcT :: "real \<Rightarrow> locals" where
  "lcT b = read_config (cfgT b)"

definition stT :: "real \<Rightarrow> st" where
  "stT b = entry (cfgT b) 2 rowA rowA"

section \<open>The loops of a step compute the closed forms\<close>

text \<open>The operations on finite values, for the evaluation of the examples.\<close>

lemma Fin_add [simp]: "Fin a + Fin b = Fin (a + b)"
  by (simp add: plus_dbl_def)

lemma Fin_sub [simp]: "Fin a - Fin b = Fin (a - b)"
  by (simp add: minus_dbl_def)

lemma Fin_neg [simp]: "- Fin a = Fin (- a)"
  by (simp add: uminus_dbl_def)

lemma Fin_mul [simp]: "Fin a * Fin b = Fin (a * b)"
  by (simp add: times_dbl_def)

lemma Fin_div [simp]: "b \<noteq> 0 \<Longrightarrow> Fin a / Fin b = Fin (a / b)"
  by (simp add: divide_dbl_def)

lemma Fin_less [simp]: "Fin a < Fin b \<longleftrightarrow> a < b"
  by (simp add: less_dbl_def)

lemma Fin_le [simp]: "Fin a \<le> Fin b \<longleftrightarrow> a \<le> b"
  by (simp add: less_eq_dbl_def)

lemma upd_map_drop:
  "n < length xs \<Longrightarrow> (map f [0..<n] @ drop n xs)[n := v] = map f [0..<n] @ v # drop (Suc n) xs"
  by (simp add: list_update_append Cons_nth_drop_Suc [symmetric] )

lemma nth_map_drop:
  "n < length xs \<Longrightarrow> (map f [0..<n] @ drop n xs) ! n = xs ! n"
  by (simp add: nth_append)

lemma slope_loop_gen:
  "n \<le> m \<Longrightarrow> length (s_u s) = m \<Longrightarrow> length (s_p s) = m \<Longrightarrow> length (s_rho s) = m \<Longrightarrow>
   fold (slope_cell lc m k) [0..<n] s =
     s\<lparr>s_u := map (lim lc m k (U0 s) (UL s) (UR s) (s_u s)) [0..<n] @ drop n (s_u s),
       s_p := map (lim lc m k (P0 s) (PL s) (PR s) (s_p s)) [0..<n] @ drop n (s_p s),
       s_rho := map (lim lc m k (RHO0 s) (RHOL s) (RHOR s) (s_rho s)) [0..<n] @ drop n (s_rho s)\<rparr>"
proof (induction n)
  case 0
  then show ?case by simp
next
  case (Suc n)
  have "fold (slope_cell lc m k) [0..<Suc n] s =
        slope_cell lc m k n (fold (slope_cell lc m k) [0..<n] s)"
    by simp
  also have "\<dots> = slope_cell lc m k n
     (s\<lparr>s_u := map (lim lc m k (U0 s) (UL s) (UR s) (s_u s)) [0..<n] @ drop n (s_u s),
       s_p := map (lim lc m k (P0 s) (PL s) (PR s) (s_p s)) [0..<n] @ drop n (s_p s),
       s_rho := map (lim lc m k (RHO0 s) (RHOL s) (RHOR s) (s_rho s)) [0..<n] @ drop n (s_rho s)\<rparr>)"
    using Suc by simp
  also have "\<dots> = s\<lparr>s_u := map (lim lc m k (U0 s) (UL s) (UR s) (s_u s)) [0..<Suc n] @ drop (Suc n) (s_u s),
       s_p := map (lim lc m k (P0 s) (PL s) (PR s) (s_p s)) [0..<Suc n] @ drop (Suc n) (s_p s),
       s_rho := map (lim lc m k (RHO0 s) (RHOL s) (RHOR s) (s_rho s)) [0..<Suc n] @ drop (Suc n) (s_rho s)\<rparr>"
    using Suc.prems
    by (simp add: slope_cell_def Let_def lim_def upd_map_drop nth_map_drop)
  finally show ?case .
qed

lemma star_check_eq:
  "star_check lc k j mid s =
     s\<lparr>out := out s @ star_msgs lc k j mid,
       time_c := (if star_bad lc mid then t_all lc else time_c s)\<rparr>"
  by (cases mid) (simp add: star_check_def star_msgs_def star_bad_def Let_def)

lemma state_L_solved [simp]: "state_L lc (solved grp lc' m k n s) = state_L lc s"
  by (simp add: fun_eq_iff state_L_def solved_def)

lemma state_R_solved [simp]: "state_R lc m' (solved grp lc' m k n s) = state_R lc m' s"
  by (simp add: fun_eq_iff state_R_def solved_def)

lemma slope_L_solved [simp]: "slope_L (solved grp lc' m k n s) = slope_L s"
  by (simp add: fun_eq_iff slope_L_def solved_def)

lemma slope_R_solved [simp]: "slope_R m' (solved grp lc' m k n s) = slope_R m' s"
  by (simp add: fun_eq_iff slope_R_def solved_def)

lemma solve_solved [simp]: "solve grp' lc m' (solved grp lc' m k n s) = solve grp' lc m' s"
  by (simp add: fun_eq_iff solve_def)

lemma solved_0: "solved grp lc m k 0 s = s"
  by (simp add: solved_def)

lemma interface_solved:
  assumes "n < length (RHO_next s)" "n < length (U_next s)" "n < length (P_next s)"
    "n < length (RHO_t s)" "n < length (U_t s)" "n < length (P_t s)"
  shows "interface grp lc m k n (solved grp lc m k n s) =
     (if bad_recon lc m s n
      then Inl ((solved grp lc m k n s)\<lparr>out := out (solved grp lc m k n s) @ [recon_msg lc m k s n]\<rparr>)
      else Inr (solved grp lc m k (Suc n) s))"
proof (cases "bad_recon lc m s n")
  case True
  then show ?thesis
    by (auto simp: interface_def bad_recon_def recon_msg_def)
next
  case False
  obtain d_rho d_u d_p rho_star u_star p_star where
    sv: "solve grp lc m s n = ((d_rho, d_u, d_p), (rho_star, u_star, p_star))"
    by (metis prod_cases3 surj_pair)
  have ex: "(\<exists>j<Suc n. star_bad lc (mid_at grp lc m s j)) \<longleftrightarrow>
      ((\<exists>j<n. star_bad lc (mid_at grp lc m s j)) \<or> star_bad lc (mid_at grp lc m s n))"
    by (auto simp: less_Suc_eq)
  from False have nb: "\<not> neg_recon lc (state_L lc s n) (state_R lc m s n)"
     "\<not> nan_recon (state_L lc s n) (state_R lc m s n)"
    by (simp_all add: bad_recon_def)
  show ?thesis using assms
    unfolding interface_def
    apply (simp add: nb False sv star_check_eq )
    apply (simp add: solved_def mid_at_def dire_at_def sv upd_map_drop nth_map_drop Ex_less_Suc All_less_Suc)
    done
qed

lemma loop_until_append:
  "loop_until f (xs @ ys) s =
     (case loop_until f xs s of Inl a \<Rightarrow> Inl a | Inr s' \<Rightarrow> loop_until f ys s')"
proof (induction xs arbitrary: s)
  case Nil
  show ?case by simp
next
  case (Cons x xs)
  show ?case
    by (cases "f x s") (simp_all add: Cons)
qed

lemma sizedD:
  assumes "sized m s"
  shows "length (RHO0 s) = m" "length (U0 s) = m" "length (P0 s) = m" "length (E0 s) = m"
    "length (RHO1 s) = m" "length (U1 s) = m" "length (P1 s) = m" "length (E1 s) = m"
    "length (s_rho s) = m" "length (s_u s) = m" "length (s_p s) = m"
    "length (U_next s) = Suc m" "length (P_next s) = Suc m" "length (RHO_next s) = Suc m"
    "length (U_t s) = Suc m" "length (P_t s) = Suc m" "length (RHO_t s) = Suc m"
    "length (F1 s) = Suc m" "length (F2 s) = Suc m" "length (F3 s) = Suc m"
  using assms unfolding sized_def by blast+

lemma interfaces_prefix:
  "n \<le> Suc m \<Longrightarrow> sized m s \<Longrightarrow> \<forall>j<n. \<not> bad_recon lc m s j \<Longrightarrow>
   loop_until (interface grp lc m k) [0..<n] s = Inr (solved grp lc m k n s)"
proof (induction n)
  case 0
  show ?case unfolding solved_0 by simp
next
  case (Suc n)
  have ih: "loop_until (interface grp lc m k) [0..<n] s = Inr (solved grp lc m k n s)"
    using Suc.prems by (intro Suc.IH) simp_all
  have len: "n < length (RHO_next s)" "n < length (U_next s)" "n < length (P_next s)"
    "n < length (RHO_t s)" "n < length (U_t s)" "n < length (P_t s)"
    using Suc.prems(1,2) by (simp_all add: sizedD)
  have nb: "\<not> bad_recon lc m s n" using Suc.prems(3) by simp
  have "loop_until (interface grp lc m k) [0..<Suc n] s =
        loop_until (interface grp lc m k) ([0..<n] @ [n]) s"
    by simp
  also have "\<dots> = loop_until (interface grp lc m k) [n] (solved grp lc m k n s)"
    unfolding loop_until_append ih by simp
  also have "\<dots> = Inr (solved grp lc m k (Suc n) s)"
    unfolding loop_until.simps interface_solved [OF len] using nb by simp
  finally show ?case .
qed

lemma interfaces_ok:
  "sized m s \<Longrightarrow> \<forall>j\<le>m. \<not> bad_recon lc m s j \<Longrightarrow>
   interfaces grp lc m k s = Inr (solved grp lc m k (Suc m) s)"
  unfolding interfaces_def by (rule interfaces_prefix) (simp_all add: less_Suc_eq_le)

lemma interfaces_fail:
  assumes "j0 \<le> m" "sized m s" "\<forall>j<j0. \<not> bad_recon lc m s j" "bad_recon lc m s j0"
  shows "interfaces grp lc m k s =
     Inl ((solved grp lc m k j0 s)\<lparr>out := out (solved grp lc m k j0 s) @ [recon_msg lc m k s j0]\<rparr>)"
proof -
  have split: "[0..<Suc m] = [0..<j0] @ j0 # [Suc j0..<Suc m]"
  proof -
    have "[0..<Suc m] = [0..<j0] @ [j0..<Suc m]"
      using assms(1) upt_add_eq_append [of 0 j0 "Suc m - j0"] by simp
    moreover have "[j0..<Suc m] = j0 # [Suc j0..<Suc m]"
      using assms(1) by (simp add: upt_conv_Cons)
    ultimately show ?thesis by simp
  qed
  have pre: "loop_until (interface grp lc m k) [0..<j0] s = Inr (solved grp lc m k j0 s)"
    using assms(1,2,3) by (intro interfaces_prefix) simp_all
  have len: "j0 < length (RHO_next s)" "j0 < length (U_next s)" "j0 < length (P_next s)"
    "j0 < length (RHO_t s)" "j0 < length (U_t s)" "j0 < length (P_t s)"
    using assms(1,2) by (simp_all add: sizedD)
  show ?thesis
    unfolding interfaces_def split
    by (simp add: loop_until_append pre interface_solved [OF len] assms(4))
qed

lemma first_bad:
  assumes "\<exists>j\<le>m. bad_recon lc m s j"
  shows "\<exists>j0\<le>m. bad_recon lc m s j0 \<and> (\<forall>j<j0. \<not> bad_recon lc m s j)"
proof -
  from assms obtain j where j: "j \<le> m" "bad_recon lc m s j" by blast
  let ?j0 = "LEAST i. bad_recon lc m s i"
  have "bad_recon lc m s ?j0" using j(2) by (rule LeastI)
  moreover have "?j0 \<le> j" using j(2) by (rule Least_le)
  moreover have "\<forall>i<?j0. \<not> bad_recon lc m s i" using not_less_Least by blast
  ultimately show ?thesis using j(1) by (meson le_trans)
qed

lemma flux_cell_fluxed:
  assumes "n < length (RHO_next s)" "n < length (U_next s)" "n < length (P_next s)"
    "n < length (F1 s)" "n < length (F2 s)" "n < length (F3 s)"
  shows "flux_cell lc n (fluxed lc n s) = fluxed lc (Suc n) s"
  using assms
  by (simp add: flux_cell_def fluxed_def Let_def upd_map_drop nth_map_drop
      half_rho_def half_u_def half_p_def flux1_def flux2_def flux3_def)

lemma flux_loop_gen:
  "n \<le> Suc m \<Longrightarrow> sized m s \<Longrightarrow> fold (flux_cell lc) [0..<n] s = fluxed lc n s"
proof (induction n)
  case 0
  show ?case by (simp add: fluxed_def)
next
  case (Suc n)
  have ih: "fold (flux_cell lc) [0..<n] s = fluxed lc n s"
    using Suc.prems by (intro Suc.IH) simp_all
  have len: "n < length (RHO_next s)" "n < length (U_next s)" "n < length (P_next s)"
    "n < length (F1 s)" "n < length (F2 s)" "n < length (F3 s)"
    using Suc.prems by (simp_all add: sizedD)
  show ?case
    by (simp add: ih flux_cell_fluxed [OF len])
qed

lemma update_check_eq:
  "update_check lc k j (new_rho lc s' j) (new_u lc s' j) (new_p lc s' j) s =
     s\<lparr>out := out s @ upd_msgs lc k s' j,
       time_c := (if upd_bad lc s' j then t_all lc else time_c s)\<rparr>"
  by (simp add: update_check_def upd_msgs_def upd_bad_def upd_neg_def upd_nan_def Let_def)

lemma new_updated [simp]:
  "new_rho lc (updated lc' k n s) = new_rho lc s"
  "new_Mom lc (updated lc' k n s) = new_Mom lc s"
  "new_Ene lc (updated lc' k n s) = new_Ene lc s"
  by (simp_all add: fun_eq_iff new_rho_def new_Mom_def new_Ene_def updated_def)

lemma new_updated2 [simp]:
  "new_u lc (updated lc' k n s) = new_u lc s"
  "new_e lc (updated lc' k n s) = new_e lc s"
  "new_p lc (updated lc' k n s) = new_p lc s"
  by (simp_all add: fun_eq_iff new_u_def new_e_def new_p_def)

lemma new_updated3 [simp]:
  "upd_bad lc (updated lc' k n s) = upd_bad lc s"
  "upd_msgs lc k' (updated lc' k n s) = upd_msgs lc k' s"
  by (simp_all add: fun_eq_iff upd_bad_def upd_neg_def upd_nan_def upd_msgs_def)

lemma update_cell_new:
  "update_cell lc k j s =
     (update_check lc k j (new_rho lc s j) (new_u lc s j) (new_p lc s j) s)
           \<lparr>RHO1 := (RHO1 s)[j := new_rho lc s j],
            U1 := (U1 s)[j := new_u lc s j],
            E1 := (E1 s)[j := new_e lc s j],
            P1 := (P1 s)[j := new_p lc s j],
            s_u := (s_u s)[j := (U_next s ! (j + 1) - U_next s ! j) / h_cell lc],
            s_p := (s_p s)[j := (P_next s ! (j + 1) - P_next s ! j) / h_cell lc],
            s_rho := (s_rho s)[j := (RHO_next s ! (j + 1) - RHO_next s ! j) / h_cell lc]\<rparr>"
  by (simp add: update_cell_def Let_def new_rho_def new_Mom_def new_Ene_def new_u_def
      new_e_def new_p_def)

lemma update_cell_updated:
  assumes "n < length (RHO1 s)" "n < length (U1 s)" "n < length (E1 s)" "n < length (P1 s)"
    "n < length (s_u s)" "n < length (s_p s)" "n < length (s_rho s)"
  shows "update_cell lc k n (updated lc k n s) = updated lc k (Suc n) s"
proof -
  have ex: "(\<exists>j<Suc n. upd_bad lc s j) \<longleftrightarrow> (\<exists>j<n. upd_bad lc s j) \<or> upd_bad lc s n"
    by (auto simp: less_Suc_eq)
  have tc: "(if upd_bad lc s n then t_all lc
             else if \<exists>j<n. upd_bad lc s j then t_all lc else time_c s) =
            (if \<exists>j<Suc n. upd_bad lc s j then t_all lc else time_c s)"
    unfolding ex by (cases "upd_bad lc s n"; cases "\<exists>j<n. upd_bad lc s j"; simp; blast)
  have "update_cell lc k n (updated lc k n s) =
     s\<lparr>RHO1 := (map (new_rho lc s) [0..<n] @ drop n (RHO1 s))[n := new_rho lc s n],
       U1 := (map (new_u lc s) [0..<n] @ drop n (U1 s))[n := new_u lc s n],
       E1 := (map (new_e lc s) [0..<n] @ drop n (E1 s))[n := new_e lc s n],
       P1 := (map (new_p lc s) [0..<n] @ drop n (P1 s))[n := new_p lc s n],
       s_u := (map (\<lambda>j. (U_next s ! (j + 1) - U_next s ! j) / h_cell lc) [0..<n] @ drop n (s_u s))
            [n := (U_next s ! (n + 1) - U_next s ! n) / h_cell lc],
       s_p := (map (\<lambda>j. (P_next s ! (j + 1) - P_next s ! j) / h_cell lc) [0..<n] @ drop n (s_p s))
            [n := (P_next s ! (n + 1) - P_next s ! n) / h_cell lc],
       s_rho := (map (\<lambda>j. (RHO_next s ! (j + 1) - RHO_next s ! j) / h_cell lc) [0..<n]
                  @ drop n (s_rho s))
            [n := (RHO_next s ! (n + 1) - RHO_next s ! n) / h_cell lc],
       out := (out s @ concat (map (upd_msgs lc k s) [0..<n])) @ upd_msgs lc k s n,
       time_c := (if upd_bad lc s n then t_all lc
             else if \<exists>j<n. upd_bad lc s j then t_all lc else time_c s)\<rparr>"
    unfolding update_cell_new new_updated new_updated2 update_check_eq new_updated3
    by (simp add: updated_def del: ex_simps all_simps)
  also have "\<dots> = updated lc k (Suc n) s"
    unfolding tc using assms
    by (simp add: updated_def upd_map_drop del: ex_simps all_simps)
  finally show ?thesis .
qed

lemma update_loop_gen:
  "n \<le> m \<Longrightarrow> sized m s \<Longrightarrow> fold (update_cell lc k) [0..<n] s = updated lc k n s"
proof (induction n)
  case 0
  show ?case by (simp add: updated_def)
next
  case (Suc n)
  have ih: "fold (update_cell lc k) [0..<n] s = updated lc k n s"
    using Suc.prems by (intro Suc.IH) simp_all
  have len: "n < length (RHO1 s)" "n < length (U1 s)" "n < length (E1 s)" "n < length (P1 s)"
    "n < length (s_u s)" "n < length (s_p s)" "n < length (s_rho s)"
    using Suc.prems by (simp_all add: sizedD)
  show ?case
    by (simp add: ih update_cell_updated [OF len])
qed

lemma copy_cell_copied:
  assumes "n < length (RHO0 s)" "n < length (U0 s)" "n < length (E0 s)" "n < length (P0 s)"
  shows "copy_cell n (copied n s) = copied (Suc n) s"
  using assms by (simp add: copy_cell_def copied_def upd_map_drop)

lemma copy_loop_gen:
  "n \<le> m \<Longrightarrow> sized m s \<Longrightarrow> fold copy_cell [0..<n] s = copied n s"
proof (induction n)
  case 0
  show ?case by (simp add: copied_def)
next
  case (Suc n)
  have ih: "fold copy_cell [0..<n] s = copied n s"
    using Suc.prems by (intro Suc.IH) simp_all
  have len: "n < length (RHO0 s)" "n < length (U0 s)" "n < length (E0 s)" "n < length (P0 s)"
    using Suc.prems by (simp_all add: sizedD)
  show ?case
    by (simp add: ih copy_cell_copied [OF len])
qed

lemma copy_loop:
  assumes "sized m s"
  shows "fold copy_cell [0..<m] s = s\<lparr>RHO0 := RHO1 s, U0 := U1 s, E0 := E1 s, P0 := P1 s\<rparr>"
proof -
  have m: "map ((!) (RHO1 s)) [0..<m] = RHO1 s" "map ((!) (U1 s)) [0..<m] = U1 s"
    "map ((!) (E1 s)) [0..<m] = E1 s" "map ((!) (P1 s)) [0..<m] = P1 s"
    using sizedD [OF assms] map_nth by metis+
  show ?thesis
    using sizedD [OF assms] by (simp add: copy_loop_gen [OF le_refl assms] copied_def m)
qed

lemma length_map_drop [simp]:
  "n \<le> length xs \<Longrightarrow> length (map f [0..<n] @ drop n xs) = length xs"
  by simp

lemma sized_solved:
  assumes "sized m s" "n \<le> Suc m"
  shows "sized m (solved grp lc m k n s)"
  unfolding sized_def solved_def using assms(2) by (simp add: sizedD [OF assms(1)])

lemma sized_time_step:
  assumes "sized m s"
  shows "sized m (time_step lc s)"
  unfolding sized_def time_step_def by (simp add: sizedD [OF assms] Let_def)

lemma sized_fluxed:
  assumes "sized m s" "n \<le> Suc m"
  shows "sized m (fluxed lc n s)"
  unfolding sized_def fluxed_def using assms(2) by (simp add: sizedD [OF assms(1)])

lemma sized_updated:
  assumes "sized m s" "n \<le> m"
  shows "sized m (updated lc k n s)"
  unfolding sized_def updated_def using assms(2) by (simp add: sizedD [OF assms(1)])

lemma interfaces_Inr:
  assumes "sized m r" "interfaces grp lc m k r = Inr i"
  shows "i = solved grp lc m k (Suc m) r" and "\<forall>j\<le>m. \<not> bad_recon lc m r j"
proof -
  show nb: "\<forall>j\<le>m. \<not> bad_recon lc m r j"
  proof (rule ccontr)
    assume "\<not> (\<forall>j\<le>m. \<not> bad_recon lc m r j)"
    then have "\<exists>j\<le>m. bad_recon lc m r j" by blast
    from first_bad [OF this] obtain j0 where
      "j0 \<le> m" "bad_recon lc m r j0" "\<forall>j<j0. \<not> bad_recon lc m r j" by blast
    from interfaces_fail [OF this(1) assms(1) this(3) this(2), of grp k] assms(2)
    show False by simp
  qed
  from interfaces_ok [OF assms(1) nb, of grp k] assms(2)
  show "i = solved grp lc m k (Suc m) r" by simp
qed

lemma fluxes_eq:
  assumes "sized m i"
  shows "fluxes lc m i = fluxed lc (Suc m) (time_step lc i)"
  unfolding fluxes_def by (rule flux_loop_gen [OF le_refl sized_time_step [OF assms]])

lemma sized_fluxes:
  assumes "sized m i"
  shows "sized m (fluxes lc m i)"
  unfolding fluxes_eq [OF assms] by (rule sized_fluxed [OF sized_time_step [OF assms] le_refl])

lemma updates_eq:
  assumes "sized m i"
  shows "updates lc m k i = updated lc k m (fluxes lc m i)"
  unfolding updates_def by (rule update_loop_gen [OF le_refl sized_fluxes [OF assms]])

lemma sized_updates:
  assumes "sized m i"
  shows "sized m (updates lc m k i)"
  unfolding updates_eq [OF assms] by (rule sized_updated [OF sized_fluxes [OF assms] le_refl])

lemma slope_loop:
  assumes "sized m s"
  shows "fold (slope_cell lc m k) [0..<m] s = sloped lc m k s"
  using slope_loop_gen [OF le_refl sizedD(10,11,9) [OF assms], of lc k]
  by (simp add: sloped_def sizedD [OF assms])

lemma bound_values_eq:
  "bound_values lc m s =
     (if ghost_ok lc then Inr (ghosted lc m s) else Inl (s\<lparr>out := out s @ [No_suitable_bc]\<rparr>))"
  by (simp add: bound_values_def ghosted_def ghost_ok_def)

lemma ghosted_frame [simp]:
    "RHO0 (ghosted lc m s) = RHO0 s" "U0 (ghosted lc m s) = U0 s"
    "P0 (ghosted lc m s) = P0 s" "E0 (ghosted lc m s) = E0 s"
    "RHO1 (ghosted lc m s) = RHO1 s" "U1 (ghosted lc m s) = U1 s"
    "P1 (ghosted lc m s) = P1 s" "E1 (ghosted lc m s) = E1 s"
    "s_rho (ghosted lc m s) = s_rho s" "s_u (ghosted lc m s) = s_u s"
    "s_p (ghosted lc m s) = s_p s"
    "U_next (ghosted lc m s) = U_next s" "P_next (ghosted lc m s) = P_next s"
    "RHO_next (ghosted lc m s) = RHO_next s"
    "U_t (ghosted lc m s) = U_t s" "P_t (ghosted lc m s) = P_t s"
    "RHO_t (ghosted lc m s) = RHO_t s"
    "F1 (ghosted lc m s) = F1 s" "F2 (ghosted lc m s) = F2 s" "F3 (ghosted lc m s) = F3 s"
    "h_S_max (ghosted lc m s) = h_S_max s" "time_c (ghosted lc m s) = time_c s"
    "tau (ghosted lc m s) = tau s" "config (ghosted lc m s) = config s"
    "SUL (ghosted lc m s) = SUL s" "SPL (ghosted lc m s) = SPL s"
    "SRHOL (ghosted lc m s) = SRHOL s"
    "SUR (ghosted lc m s) = SUR s" "SPR (ghosted lc m s) = SPR s"
    "SRHOR (ghosted lc m s) = SRHOR s"
  by (simp_all add: ghosted_def bound_values_def)

lemma ghosted_find_bound: "ghost_ok lc \<Longrightarrow> find_bound (ghosted lc m s)"
  by (simp add: ghosted_def bound_values_def ghost_ok_def) blast

lemma sized_ghosted: "sized m s \<Longrightarrow> sized m (ghosted lc m' s)"
  by (simp add: sized_def)

lemma reconstruct_eq:
  assumes "sized m s"
  shows "reconstruct lc m k s =
     (if ghost_ok lc then Inr (recon lc m k s)
      else Inl (s\<lparr>h_S_max := PInf, out := out s @ [No_suitable_bc]\<rparr>))"
proof -
  have sz: "sized m (ghosted lc m (s\<lparr>h_S_max := PInf\<rparr>))"
    using assms by (simp add: sized_def)
  show ?thesis
    by (simp add: reconstruct_def bound_values_eq slope_loop [OF sz] recon_def)
qed

lemma bound_slopes_frame [simp]:
    "RHO0 (bound_slopes lc m s) = RHO0 s" "U0 (bound_slopes lc m s) = U0 s"
    "P0 (bound_slopes lc m s) = P0 s" "E0 (bound_slopes lc m s) = E0 s"
    "RHO1 (bound_slopes lc m s) = RHO1 s" "U1 (bound_slopes lc m s) = U1 s"
    "P1 (bound_slopes lc m s) = P1 s" "E1 (bound_slopes lc m s) = E1 s"
    "s_rho (bound_slopes lc m s) = s_rho s" "s_u (bound_slopes lc m s) = s_u s"
    "s_p (bound_slopes lc m s) = s_p s"
    "U_next (bound_slopes lc m s) = U_next s" "P_next (bound_slopes lc m s) = P_next s"
    "RHO_next (bound_slopes lc m s) = RHO_next s"
    "U_t (bound_slopes lc m s) = U_t s" "P_t (bound_slopes lc m s) = P_t s"
    "RHO_t (bound_slopes lc m s) = RHO_t s"
    "F1 (bound_slopes lc m s) = F1 s" "F2 (bound_slopes lc m s) = F2 s"
    "F3 (bound_slopes lc m s) = F3 s"
    "h_S_max (bound_slopes lc m s) = h_S_max s" "time_c (bound_slopes lc m s) = time_c s"
    "tau (bound_slopes lc m s) = tau s" "config (bound_slopes lc m s) = config s"
    "UL (bound_slopes lc m s) = UL s" "PL (bound_slopes lc m s) = PL s"
    "RHOL (bound_slopes lc m s) = RHOL s"
    "UR (bound_slopes lc m s) = UR s" "PR (bound_slopes lc m s) = PR s"
    "RHOR (bound_slopes lc m s) = RHOR s"
    "find_bound (bound_slopes lc m s) = find_bound s" "out (bound_slopes lc m s) = out s"
  by (simp_all add: bound_slopes_def)

lemma recon_frame:
    "RHO0 (recon lc m k s) = RHO0 s" "U0 (recon lc m k s) = U0 s"
    "P0 (recon lc m k s) = P0 s" "E0 (recon lc m k s) = E0 s"
    "RHO1 (recon lc m k s) = RHO1 s" "U1 (recon lc m k s) = U1 s"
    "P1 (recon lc m k s) = P1 s" "E1 (recon lc m k s) = E1 s"
    "U_next (recon lc m k s) = U_next s" "P_next (recon lc m k s) = P_next s"
    "RHO_next (recon lc m k s) = RHO_next s"
    "U_t (recon lc m k s) = U_t s" "P_t (recon lc m k s) = P_t s"
    "RHO_t (recon lc m k s) = RHO_t s"
    "F1 (recon lc m k s) = F1 s" "F2 (recon lc m k s) = F2 s" "F3 (recon lc m k s) = F3 s"
    "h_S_max (recon lc m k s) = PInf" "time_c (recon lc m k s) = time_c s"
    "tau (recon lc m k s) = tau s" "config (recon lc m k s) = config s"
  by (simp_all add: recon_def sloped_def)

lemma recon_slopes:
  "s_u (recon lc m k s) =
     map (lim lc m k (U0 s) (UL (recon lc m k s)) (UR (recon lc m k s)) (s_u s)) [0..<m]"
  "s_p (recon lc m k s) =
     map (lim lc m k (P0 s) (PL (recon lc m k s)) (PR (recon lc m k s)) (s_p s)) [0..<m]"
  "s_rho (recon lc m k s) =
     map (lim lc m k (RHO0 s) (RHOL (recon lc m k s)) (RHOR (recon lc m k s)) (s_rho s)) [0..<m]"
  by (simp_all add: recon_def sloped_def)

lemma sized_recon:
  assumes "sized m s"
  shows "sized m (recon lc m k s)"
  unfolding sized_def by (simp add: recon_frame recon_slopes sizedD [OF assms])

lemma time_update_eq:
  assumes "sized m u"
  shows "time_update lc m k u =
     (if time_up lc u
      then Break (u\<lparr>time_c := time_c u + tau u, config := (config u)(5 := of_step k)\<rparr>)
      else Next (u\<lparr>time_c := time_c u + tau u,
                  RHO0 := RHO1 u, U0 := U1 u, E0 := E1 u, P0 := P1 u\<rparr>))"
proof -
  have sz: "sized m (u\<lparr>time_c := time_c u + tau u\<rparr>)"
    using assms by (simp add: sized_def)
  show ?thesis
    by (simp add: time_update_def Let_def time_up_def copy_loop [OF sz])
qed

lemma time_update_frame:
  assumes "sized m u"
  shows "RHO1 (state_of (time_update lc m k u)) = RHO1 u"
    "U1 (state_of (time_update lc m k u)) = U1 u"
    "P1 (state_of (time_update lc m k u)) = P1 u"
    "E1 (state_of (time_update lc m k u)) = E1 u"
    "s_rho (state_of (time_update lc m k u)) = s_rho u"
    "s_u (state_of (time_update lc m k u)) = s_u u"
    "s_p (state_of (time_update lc m k u)) = s_p u"
    "U_next (state_of (time_update lc m k u)) = U_next u"
    "P_next (state_of (time_update lc m k u)) = P_next u"
    "RHO_next (state_of (time_update lc m k u)) = RHO_next u"
    "U_t (state_of (time_update lc m k u)) = U_t u"
    "P_t (state_of (time_update lc m k u)) = P_t u"
    "RHO_t (state_of (time_update lc m k u)) = RHO_t u"
    "F1 (state_of (time_update lc m k u)) = F1 u"
    "F2 (state_of (time_update lc m k u)) = F2 u"
    "F3 (state_of (time_update lc m k u)) = F3 u"
    "h_S_max (state_of (time_update lc m k u)) = h_S_max u"
    "tau (state_of (time_update lc m k u)) = tau u"
    "time_c (state_of (time_update lc m k u)) = time_c u + tau u"
    "out (state_of (time_update lc m k u)) = out u"
    "find_bound (state_of (time_update lc m k u)) = find_bound u"
    "UL (state_of (time_update lc m k u)) = UL u"
    "PL (state_of (time_update lc m k u)) = PL u"
    "RHOL (state_of (time_update lc m k u)) = RHOL u"
    "UR (state_of (time_update lc m k u)) = UR u"
    "PR (state_of (time_update lc m k u)) = PR u"
    "RHOR (state_of (time_update lc m k u)) = RHOR u"
    "SUL (state_of (time_update lc m k u)) = SUL u"
    "SPL (state_of (time_update lc m k u)) = SPL u"
    "SRHOL (state_of (time_update lc m k u)) = SRHOL u"
    "SUR (state_of (time_update lc m k u)) = SUR u"
    "SPR (state_of (time_update lc m k u)) = SPR u"
    "SRHOR (state_of (time_update lc m k u)) = SRHOR u"
  unfolding time_update_eq [OF assms] by simp_all

lemma GRP_step_eq:
  assumes "sized m s" "reconstruct lc m k s = Inr r" "interfaces grp lc m k r = Inr i"
  shows "r = recon lc m k s" "i = solved grp lc m k (Suc m) r" "sized m r" "sized m i"
    "sized m (stepped grp lc m k r)"
    "GRP_step grp lc m k s = time_update lc m k (stepped grp lc m k r)"
    "updates lc m k i = stepped grp lc m k r"
    "fluxes lc m i = fluxed lc (Suc m) (time_step lc i)"
proof -
  show r: "r = recon lc m k s"
    using assms(2) unfolding reconstruct_eq [OF assms(1)] by (simp split: if_splits)
  show szr: "sized m r" unfolding r by (rule sized_recon [OF assms(1)])
  show i: "i = solved grp lc m k (Suc m) r"
    by (rule interfaces_Inr(1) [OF szr assms(3)])
  show szi: "sized m i" unfolding i by (rule sized_solved [OF szr le_refl])
  show u: "updates lc m k i = stepped grp lc m k r"
    using updates_eq [OF szi, of lc k] fluxes_eq [OF szi, of lc] by (simp add: stepped_def i)
  show "sized m (stepped grp lc m k r)"
    unfolding u [symmetric] by (rule sized_updates [OF szi])
  show "GRP_step grp lc m k s = time_update lc m k (stepped grp lc m k r)"
    unfolding GRP_step_def assms(2) using assms(3) u by simp
  show "fluxes lc m i = fluxed lc (Suc m) (time_step lc i)"
    by (rule fluxes_eq [OF szi])
qed

lemma solved_frame [simp]:
  "RHO0 (solved grp lc m k n s) = RHO0 s"
  "U0 (solved grp lc m k n s) = U0 s"
  "P0 (solved grp lc m k n s) = P0 s"
  "E0 (solved grp lc m k n s) = E0 s"
  "RHO1 (solved grp lc m k n s) = RHO1 s"
  "U1 (solved grp lc m k n s) = U1 s"
  "P1 (solved grp lc m k n s) = P1 s"
  "E1 (solved grp lc m k n s) = E1 s"
  "s_rho (solved grp lc m k n s) = s_rho s"
  "s_u (solved grp lc m k n s) = s_u s"
  "s_p (solved grp lc m k n s) = s_p s"
  "F1 (solved grp lc m k n s) = F1 s"
  "F2 (solved grp lc m k n s) = F2 s"
  "F3 (solved grp lc m k n s) = F3 s"
  "tau (solved grp lc m k n s) = tau s"
  "find_bound (solved grp lc m k n s) = find_bound s"
  "UL (solved grp lc m k n s) = UL s"
  "PL (solved grp lc m k n s) = PL s"
  "RHOL (solved grp lc m k n s) = RHOL s"
  "SUL (solved grp lc m k n s) = SUL s"
  "SPL (solved grp lc m k n s) = SPL s"
  "SRHOL (solved grp lc m k n s) = SRHOL s"
  "UR (solved grp lc m k n s) = UR s"
  "PR (solved grp lc m k n s) = PR s"
  "RHOR (solved grp lc m k n s) = RHOR s"
  "SUR (solved grp lc m k n s) = SUR s"
  "SPR (solved grp lc m k n s) = SPR s"
  "SRHOR (solved grp lc m k n s) = SRHOR s"
  "config (solved grp lc m k n s) = config s"
  by (simp_all add: solved_def)

lemma time_step_frame [simp]:
  "RHO0 (time_step lc s) = RHO0 s"
  "U0 (time_step lc s) = U0 s"
  "P0 (time_step lc s) = P0 s"
  "E0 (time_step lc s) = E0 s"
  "RHO1 (time_step lc s) = RHO1 s"
  "U1 (time_step lc s) = U1 s"
  "P1 (time_step lc s) = P1 s"
  "E1 (time_step lc s) = E1 s"
  "s_rho (time_step lc s) = s_rho s"
  "s_u (time_step lc s) = s_u s"
  "s_p (time_step lc s) = s_p s"
  "U_next (time_step lc s) = U_next s"
  "P_next (time_step lc s) = P_next s"
  "RHO_next (time_step lc s) = RHO_next s"
  "U_t (time_step lc s) = U_t s"
  "P_t (time_step lc s) = P_t s"
  "RHO_t (time_step lc s) = RHO_t s"
  "F1 (time_step lc s) = F1 s"
  "F2 (time_step lc s) = F2 s"
  "F3 (time_step lc s) = F3 s"
  "h_S_max (time_step lc s) = h_S_max s"
  "time_c (time_step lc s) = time_c s"
  "find_bound (time_step lc s) = find_bound s"
  "UL (time_step lc s) = UL s"
  "PL (time_step lc s) = PL s"
  "RHOL (time_step lc s) = RHOL s"
  "SUL (time_step lc s) = SUL s"
  "SPL (time_step lc s) = SPL s"
  "SRHOL (time_step lc s) = SRHOL s"
  "UR (time_step lc s) = UR s"
  "PR (time_step lc s) = PR s"
  "RHOR (time_step lc s) = RHOR s"
  "SUR (time_step lc s) = SUR s"
  "SPR (time_step lc s) = SPR s"
  "SRHOR (time_step lc s) = SRHOR s"
  "config (time_step lc s) = config s"
  "out (time_step lc s) = out s"
  by (simp_all add: time_step_def Let_def)

lemma fluxed_frame [simp]:
  "RHO0 (fluxed lc n s) = RHO0 s"
  "U0 (fluxed lc n s) = U0 s"
  "P0 (fluxed lc n s) = P0 s"
  "E0 (fluxed lc n s) = E0 s"
  "RHO1 (fluxed lc n s) = RHO1 s"
  "U1 (fluxed lc n s) = U1 s"
  "P1 (fluxed lc n s) = P1 s"
  "E1 (fluxed lc n s) = E1 s"
  "s_rho (fluxed lc n s) = s_rho s"
  "s_u (fluxed lc n s) = s_u s"
  "s_p (fluxed lc n s) = s_p s"
  "U_t (fluxed lc n s) = U_t s"
  "P_t (fluxed lc n s) = P_t s"
  "RHO_t (fluxed lc n s) = RHO_t s"
  "h_S_max (fluxed lc n s) = h_S_max s"
  "time_c (fluxed lc n s) = time_c s"
  "tau (fluxed lc n s) = tau s"
  "find_bound (fluxed lc n s) = find_bound s"
  "UL (fluxed lc n s) = UL s"
  "PL (fluxed lc n s) = PL s"
  "RHOL (fluxed lc n s) = RHOL s"
  "SUL (fluxed lc n s) = SUL s"
  "SPL (fluxed lc n s) = SPL s"
  "SRHOL (fluxed lc n s) = SRHOL s"
  "UR (fluxed lc n s) = UR s"
  "PR (fluxed lc n s) = PR s"
  "RHOR (fluxed lc n s) = RHOR s"
  "SUR (fluxed lc n s) = SUR s"
  "SPR (fluxed lc n s) = SPR s"
  "SRHOR (fluxed lc n s) = SRHOR s"
  "config (fluxed lc n s) = config s"
  "out (fluxed lc n s) = out s"
  by (simp_all add: fluxed_def)

lemma updated_frame [simp]:
  "RHO0 (updated lc k n s) = RHO0 s"
  "U0 (updated lc k n s) = U0 s"
  "P0 (updated lc k n s) = P0 s"
  "E0 (updated lc k n s) = E0 s"
  "U_next (updated lc k n s) = U_next s"
  "P_next (updated lc k n s) = P_next s"
  "RHO_next (updated lc k n s) = RHO_next s"
  "U_t (updated lc k n s) = U_t s"
  "P_t (updated lc k n s) = P_t s"
  "RHO_t (updated lc k n s) = RHO_t s"
  "F1 (updated lc k n s) = F1 s"
  "F2 (updated lc k n s) = F2 s"
  "F3 (updated lc k n s) = F3 s"
  "h_S_max (updated lc k n s) = h_S_max s"
  "tau (updated lc k n s) = tau s"
  "find_bound (updated lc k n s) = find_bound s"
  "UL (updated lc k n s) = UL s"
  "PL (updated lc k n s) = PL s"
  "RHOL (updated lc k n s) = RHOL s"
  "SUL (updated lc k n s) = SUL s"
  "SPL (updated lc k n s) = SPL s"
  "SRHOL (updated lc k n s) = SRHOL s"
  "UR (updated lc k n s) = UR s"
  "PR (updated lc k n s) = PR s"
  "RHOR (updated lc k n s) = RHOR s"
  "SUR (updated lc k n s) = SUR s"
  "SPR (updated lc k n s) = SPR s"
  "SRHOR (updated lc k n s) = SRHOR s"
  "config (updated lc k n s) = config s"
  by (simp_all add: updated_def)

lemma nth_map_app: "j < n \<Longrightarrow> (map f [0..<n] @ ys) ! j = f j"
  by (simp add: nth_append)

lemma stepped_cells:
  assumes "j < m"
  shows "RHO1 (stepped grp lc m k r) ! j = new_rho lc (stepped grp lc m k r) j"
    "U1 (stepped grp lc m k r) ! j = new_u lc (stepped grp lc m k r) j"
    "E1 (stepped grp lc m k r) ! j = new_e lc (stepped grp lc m k r) j"
    "P1 (stepped grp lc m k r) ! j = new_p lc (stepped grp lc m k r) j"
  using assms unfolding stepped_def new_updated new_updated2
  by (simp_all add: updated_def nth_map_app)


lemma stepped_next:
  assumes "j \<le> m"
  shows "RHO_next (stepped grp lc m k r) ! j =
      half_rho (time_step lc (solved grp lc m k (Suc m) r)) j +
      Fin 0.5 * tau (stepped grp lc m k r) * RHO_t (stepped grp lc m k r) ! j"
    "U_next (stepped grp lc m k r) ! j =
      half_u (time_step lc (solved grp lc m k (Suc m) r)) j +
      Fin 0.5 * tau (stepped grp lc m k r) * U_t (stepped grp lc m k r) ! j"
    "P_next (stepped grp lc m k r) ! j =
      half_p (time_step lc (solved grp lc m k (Suc m) r)) j +
      Fin 0.5 * tau (stepped grp lc m k r) * P_t (stepped grp lc m k r) ! j"
  using assms unfolding stepped_def
  by (simp_all add: fluxed_def nth_map_app less_Suc_eq_le del: upt_Suc)

lemma stepped_slopes:
  assumes "j < m"
  shows "s_u (stepped grp lc m k r) ! j =
      (U_next (stepped grp lc m k r) ! (j + 1) - U_next (stepped grp lc m k r) ! j) / h_cell lc"
    "s_p (stepped grp lc m k r) ! j =
      (P_next (stepped grp lc m k r) ! (j + 1) - P_next (stepped grp lc m k r) ! j) / h_cell lc"
    "s_rho (stepped grp lc m k r) ! j =
      (RHO_next (stepped grp lc m k r) ! (j + 1) - RHO_next (stepped grp lc m k r) ! j)
        / h_cell lc"
  using assms unfolding stepped_def
  by (simp_all add: updated_def nth_map_app)

lemma solved_arrays:
  assumes "j \<le> m"
  shows "RHO_next (solved grp lc m k (Suc m) r) ! j = fst (mid_at grp lc m r j)"
    "U_next (solved grp lc m k (Suc m) r) ! j = fst (snd (mid_at grp lc m r j))"
    "P_next (solved grp lc m k (Suc m) r) ! j = snd (snd (mid_at grp lc m r j))"
    "RHO_t (solved grp lc m k (Suc m) r) ! j = fst (dire_at grp lc m r j)"
    "U_t (solved grp lc m k (Suc m) r) ! j = fst (snd (dire_at grp lc m r j))"
    "P_t (solved grp lc m k (Suc m) r) ! j = snd (snd (dire_at grp lc m r j))"
  using assms by (simp_all add: solved_def nth_map_app less_Suc_eq_le del: upt_Suc)

lemma stepped_old_row:
  "RHO0 (stepped grp lc m k (recon lc m k s)) = RHO0 s"
  "U0 (stepped grp lc m k (recon lc m k s)) = U0 s"
  "P0 (stepped grp lc m k (recon lc m k s)) = P0 s"
  "E0 (stepped grp lc m k (recon lc m k s)) = E0 s"
  by (simp_all add: stepped_def recon_frame)

section \<open>The claims\<close>


lemma stepped_tau:
  "tau (stepped grp lc m k r) = tau (time_step lc (solved grp lc m k (Suc m) r))"
  by (simp add: stepped_def)


lemma stepped_full:
  assumes "j \<le> m"
  shows "(RHO_next (stepped grp lc m k r) ! j, U_next (stepped grp lc m k r) ! j,
          P_next (stepped grp lc m k r) ! j) =
         full_state grp lc m r (tau (stepped grp lc m k r)) j"
proof -
  have t: "RHO_t (stepped grp lc m k r) = RHO_t (solved grp lc m k (Suc m) r)"
    "U_t (stepped grp lc m k r) = U_t (solved grp lc m k (Suc m) r)"
    "P_t (stepped grp lc m k r) = P_t (solved grp lc m k (Suc m) r)"
    by (simp_all add: stepped_def)
  show ?thesis
    unfolding stepped_next [OF assms] t
    unfolding stepped_tau half_rho_def half_u_def half_p_def full_state_def
      time_step_frame solved_arrays [OF assms] mid_at_def dire_at_def
    by (simp add: case_prod_beta)
qed


text \<open>
  Claim C5, as amended. In a step that is not aborted, the slope stored for every cell
  \<open>j < m\<close> and every variable is \<open>(V_next[j+1] - V_next[j]) / h\<close>, where \<open>V_next\<close> holds the
  full-step interface states \<open>mid + 0.5 * tau * dire + 0.5 * tau * dire\<close> of the step (the
  half-step states advanced by another half step), not the updated cell averages.
\<close>

theorem slopes_from_full_step:
  assumes sz: "sized m s" and rc: "reconstruct lc m k s = Inr r"
    and ic: "interfaces grp lc m k r = Inr i" and j: "j < m"
  defines "s' \<equiv> state_of (GRP_step grp lc m k s)"
  defines "W \<equiv> full_state grp lc m r (tau s')"
  shows "s_rho s' ! j = (fst (W (j + 1)) - fst (W j)) / h_cell lc \<and>
    s_u s' ! j = (fst (snd (W (j + 1))) - fst (snd (W j))) / h_cell lc \<and>
    s_p s' ! j = (snd (snd (W (j + 1))) - snd (snd (W j))) / h_cell lc \<and>
    (\<forall>n\<le>m. (RHO_next s' ! n, U_next s' ! n, P_next s' ! n) = W n)"
proof -
  note e = GRP_step_eq [OF sz rc ic]
  let ?u = "stepped grp lc m k r"
  note f = time_update_frame [OF e(5), of lc k]
  have s': "s_rho s' = s_rho ?u" "s_u s' = s_u ?u" "s_p s' = s_p ?u" "tau s' = tau ?u"
    "RHO_next s' = RHO_next ?u" "U_next s' = U_next ?u" "P_next s' = P_next ?u"
    unfolding s'_def e(6) by (simp_all add: f)
  have full: "(RHO_next ?u ! n, U_next ?u ! n, P_next ?u ! n) = W n" if "n \<le> m" for n
    unfolding W_def s' by (rule stepped_full [OF that])
  have j1: "j + 1 \<le> m" and j0: "j \<le> m" using j by simp_all
  from full [OF j1] full [OF j0]
  have "s_rho s' ! j = (fst (W (j + 1)) - fst (W j)) / h_cell lc"
    "s_u s' ! j = (fst (snd (W (j + 1))) - fst (snd (W j))) / h_cell lc"
    "s_p s' ! j = (snd (snd (W (j + 1))) - snd (snd (W j))) / h_cell lc"
    unfolding s' stepped_slopes [OF j] by (metis fst_conv snd_conv)+
  moreover have "\<forall>n\<le>m. (RHO_next s' ! n, U_next s' ! n, P_next s' ! n) = W n"
    unfolding s' using full by blast
  ultimately show ?thesis by blast
qed

lemmas dbl_ops = plus_dbl_def minus_dbl_def uminus_dbl_def times_dbl_def divide_dbl_def
  less_dbl_def less_eq_dbl_def

lemma lcA_eq:
  "lcA = \<lparr>t_all = Fin 1, eps = Fin (1 / 1000), N_max = 10, gamma = Fin 2, CFL = Fin (1 / 2),
      h_cell = Fin 1, bound = - 2, alpha = Fin 1\<rparr>"
  by (simp add: lcA_def read_config_def cfgA_def)

lemma lcA_fields [simp]:
  "t_all lcA = Fin 1" "eps lcA = Fin (1 / 1000)" "N_max lcA = 10" "gamma lcA = Fin 2"
  "CFL lcA = Fin (1 / 2)" "h_cell lcA = Fin 1" "bound lcA = - 2" "alpha lcA = Fin 1"
  by (simp_all add: lcA_eq)

lemma sized_stA: "sized 2 stA"
  by (simp add: sized_def stA_def entry_def rowA_def)

lemma minmod2_eval [simp]: "minmod2 (Fin a) (Fin b) =
   (if 0 < a \<and> 0 < b then Fin (min a b) else if a < 0 \<and> b < 0 then Fin (max a b) else Fin 0)"
  by (auto simp: minmod2_def dsign_def dbl_ops min_def max_def)

lemma upt_2 [simp]: "[0..<2] = [0, 1]"
  by (simp add: numeral_2_eq_2)

lemma upt_3 [simp]: "[0..<3] = [0, 1, 2]"
  by (simp add: numeral_3_eq_3)

lemma reconA:
  "recon lcA 2 1 stA =
     stA\<lparr>h_S_max := PInf, out := [Alpha (Fin 1), Reflective_bc], find_bound := True,
         UL := Fin (- 1), UR := Fin (- 1), PL := Fin 1, PR := Fin 1, RHOL := Fin 2, RHOR := Fin 2,
         s_u := [Fin 0, Fin 0], s_p := [Fin 0, Fin 0], s_rho := [Fin 0, Fin 0],
         SUL := Fin 0, SUR := Fin 0\<rparr>"
  by (simp add: recon_def sloped_def ghosted_def bound_values_def bound_slopes_def
      stA_def entry_def rowA_def cfgA_def lim_def quot_L_def quot_R_def)

lemma solvedA:
  "solved jump_solver lcA 2 1 (Suc 2) (recon lcA 2 1 stA) =
     (recon lcA 2 1 stA)\<lparr>h_S_max := Fin (1 / 2),
        RHO_next := [Fin 2, Fin 2, Fin 2], U_next := [Fin (- 1), Fin 1, Fin 1],
        P_next := [Fin 1, Fin 1, Fin 1],
        RHO_t := [Fin 0, Fin 0, Fin 0], U_t := [Fin 2, Fin 0, Fin (- 2)],
        P_t := [Fin 0, Fin 0, Fin 0]\<rparr>"
  unfolding reconA
  by (simp add: solved_def mid_at_def dire_at_def solve_def state_L_def state_R_def slope_L_def
      slope_R_def jump_solver_def h_S_def star_msgs_def star_bad_def
      stA_def entry_def rowA_def cfgA_def dbl_ops eval_nat_numeral)

lemma steppedA:
  "stepped jump_solver lcA 2 1 (recon lcA 2 1 stA) =
     (recon lcA 2 1 stA)\<lparr>h_S_max := Fin (1 / 2), tau := Fin (1 / 4),
        RHO_next := [Fin 2, Fin 2, Fin 2], U_next := [Fin (- 1 / 2), Fin 1, Fin (1 / 2)],
        P_next := [Fin 1, Fin 1, Fin 1],
        RHO_t := [Fin 0, Fin 0, Fin 0], U_t := [Fin 2, Fin 0, Fin (- 2)],
        P_t := [Fin 0, Fin 0, Fin 0],
        F1 := [Fin (- 3 / 2), Fin 2, Fin (3 / 2)],
        F2 := [Fin (17 / 8), Fin 3, Fin (17 / 8)],
        F3 := [Fin (- 123 / 64), Fin 3, Fin (123 / 64)],
        RHO1 := [Fin (9 / 8), Fin (17 / 8)], U1 := [Fin (19 / 12), Fin (71 / 68)],
        E1 := [Fin (197 / 288), Fin (581 / 544)], P1 := [Fin (- 41 / 64), Fin (1209 / 1088)],
        s_u := [Fin (3 / 2), Fin (- 1 / 2)], s_p := [Fin 0, Fin 0], s_rho := [Fin 0, Fin 0],
        out := [Alpha (Fin 1), Reflective_bc, Neg_Update 1 0], time_c := Fin 1\<rparr>"
  unfolding stepped_def solvedA unfolding reconA
  by (simp add: updated_def fluxed_def time_step_def Let_def
      half_rho_def half_u_def half_p_def flux1_def flux2_def flux3_def
      new_rho_def new_Mom_def new_Ene_def new_u_def new_e_def new_p_def
      upd_msgs_def upd_bad_def upd_neg_def upd_nan_def Ex_less_Suc
      stA_def entry_def rowA_def cfgA_def dbl_ops eval_nat_numeral)

lemma all_le_2: "(\<forall>j\<le>2. P j) \<longleftrightarrow> P (0::nat) \<and> P 1 \<and> P 2"
proof -
  have "j \<le> 2 \<longleftrightarrow> j = 0 \<or> j = 1 \<or> j = 2" for j :: nat by auto
  then show ?thesis by auto
qed

lemma ghost_ok_lcA: "ghost_ok lcA"
  by (simp add: ghost_ok_def)

lemma reconstructA: "reconstruct lcA 2 1 stA = Inr (recon lcA 2 1 stA)"
  by (simp add: reconstruct_eq [OF sized_stA] ghost_ok_lcA)

lemma interfacesA:
  "interfaces jump_solver lcA 2 1 (recon lcA 2 1 stA) =
     Inr (solved jump_solver lcA 2 1 (Suc 2) (recon lcA 2 1 stA))"
proof (rule interfaces_ok [OF sized_recon [OF sized_stA]])
  show "\<forall>j\<le>2. \<not> bad_recon lcA 2 (recon lcA 2 1 stA) j"
    unfolding all_le_2 reconA
    by (simp add: bad_recon_def neg_recon_def nan_recon_def state_L_def state_R_def
        stA_def entry_def rowA_def dbl_ops)
qed

lemma stepA: "GRP_step jump_solver lcA 2 1 stA = Break endA"
  unfolding GRP_step_eq(6) [OF sized_stA reconstructA interfacesA]
    time_update_eq [OF GRP_step_eq(5) [OF sized_stA reconstructA interfacesA]]
  unfolding steppedA
  unfolding reconA
  by (simp add: time_up_def endA_def stA_def entry_def rowA_def of_step_def dbl_ops)


lemma solveA:
  "solve jump_solver lcA 2 (recon lcA 2 1 stA) 0 = ((Fin 0, Fin 2, Fin 0), (Fin 2, Fin (- 1), Fin 1))"
  "solve jump_solver lcA 2 (recon lcA 2 1 stA) 1 = ((Fin 0, Fin 0, Fin 0), (Fin 2, Fin 1, Fin 1))"
  "solve jump_solver lcA 2 (recon lcA 2 1 stA) 2 = ((Fin 0, Fin (- 2), Fin 0), (Fin 2, Fin 1, Fin 1))"
  unfolding reconA
  by (simp_all add: solve_def state_L_def state_R_def slope_L_def slope_R_def jump_solver_def
      stA_def entry_def rowA_def dbl_ops)


text \<open>
  Claim C5 as stated fails: in the step of example A the slope of \<open>u\<close> stored for cell 0
  is \<open>3/2\<close>, while the difference quotient of the half-step states, from which the
  fluxes are assembled, is \<open>7/4\<close>.
\<close>

theorem slopes_not_from_half_step:
  "s_u (state_of (GRP_step jump_solver lcA 2 1 stA)) ! 0 = Fin (3 / 2) \<and>
   (fst (snd (half_state jump_solver lcA 2 (recon lcA 2 1 stA)
        (tau (state_of (GRP_step jump_solver lcA 2 1 stA))) 1)) -
    fst (snd (half_state jump_solver lcA 2 (recon lcA 2 1 stA)
        (tau (state_of (GRP_step jump_solver lcA 2 1 stA))) 0))) / h_cell lcA = Fin (7 / 4) \<and>
   Fin (3 / 2) \<noteq> Fin (7 / 4)"
  unfolding stepA state_of.simps half_state_def solveA
  by (simp add: endA_def)

theorem slopes_from_full_step_witness:
  "sized 2 stA \<and> reconstruct lcA 2 1 stA = Inr (recon lcA 2 1 stA) \<and>
   interfaces jump_solver lcA 2 1 (recon lcA 2 1 stA) =
     Inr (solved jump_solver lcA 2 1 (Suc 2) (recon lcA 2 1 stA)) \<and> (0::nat) < 2 \<and>
   full_state jump_solver lcA 2 (recon lcA 2 1 stA) (tau endA) 0 = (Fin 2, Fin (- 1 / 2), Fin 1) \<and>
   full_state jump_solver lcA 2 (recon lcA 2 1 stA) (tau endA) 1 = (Fin 2, Fin 1, Fin 1) \<and>
   s_u endA ! 0 =
     (fst (snd (full_state jump_solver lcA 2 (recon lcA 2 1 stA) (tau endA) (0 + 1))) -
      fst (snd (full_state jump_solver lcA 2 (recon lcA 2 1 stA) (tau endA) 0))) / h_cell lcA \<and>
   s_u endA ! 0 = Fin (3 / 2) \<and>
   (RHO_next endA ! 2, U_next endA ! 2, P_next endA ! 2) =
      full_state jump_solver lcA 2 (recon lcA 2 1 stA) (tau endA) 2"
proof -
  have j: "(0::nat) < 2" by simp
  note t = slopes_from_full_step [OF sized_stA reconstructA interfacesA j,
      unfolded stepA state_of.simps]
  have vals: "full_state jump_solver lcA 2 (recon lcA 2 1 stA) (tau endA) 0 =
      (Fin 2, Fin (- 1 / 2), Fin 1)"
    "full_state jump_solver lcA 2 (recon lcA 2 1 stA) (tau endA) 1 = (Fin 2, Fin 1, Fin 1)"
    "s_u endA ! 0 = Fin (3 / 2)"
    unfolding full_state_def solveA by (simp_all add: endA_def)
  note a = t [THEN conjunct2, THEN conjunct1]
  have "(2::nat) \<le> 2" by simp
  with t have b: "(RHO_next endA ! 2, U_next endA ! 2, P_next endA ! 2) =
      full_state jump_solver lcA 2 (recon lcA 2 1 stA) (tau endA) 2"
    by blast
  show ?thesis
    by (intro conjI sized_stA reconstructA interfacesA j vals a b)
qed

lemma fabs_dsqrt: "fabs (dsqrt x) = dsqrt x"
  by (cases x) simp_all

lemma h_S_eq: "h_S lc W = (case W of (rho, u, p) \<Rightarrow> h_cell lc / (fabs u + dsqrt (gamma lc * p / rho)))"
  by (simp add: h_S_def fabs_dsqrt)

lemma fmin_props:
  assumes "a \<noteq> NaN" "b \<noteq> NaN"
  shows "fmin a b = a \<or> fmin a b = b" "fmin a b \<le> a" "fmin a b \<le> b" "fmin a b \<noteq> NaN"
  using assms by (cases a; cases b; simp add: dbl_ops)+

lemma dle_trans: "a \<le> b \<Longrightarrow> b \<le> c \<Longrightarrow> a \<le> (c::dbl)"
  by (cases a; cases b; cases c; simp add: dbl_ops)

lemma dle_refl: "a \<noteq> NaN \<Longrightarrow> a \<le> (a::dbl)"
  by (cases a; simp add: dbl_ops)

lemma fold_fmin:
  "\<forall>j\<in>set xs. f1 j \<noteq> NaN \<and> f2 j \<noteq> NaN \<Longrightarrow> a \<noteq> NaN \<Longrightarrow>
   fold (\<lambda>j a. fmin (fmin a (f1 j)) (f2 j)) xs a \<noteq> NaN \<and>
   fold (\<lambda>j a. fmin (fmin a (f1 j)) (f2 j)) xs a \<le> a \<and>
   (\<forall>j\<in>set xs. fold (\<lambda>j a. fmin (fmin a (f1 j)) (f2 j)) xs a \<le> f1 j \<and>
       fold (\<lambda>j a. fmin (fmin a (f1 j)) (f2 j)) xs a \<le> f2 j) \<and>
   (fold (\<lambda>j a. fmin (fmin a (f1 j)) (f2 j)) xs a = a \<or>
    (\<exists>j\<in>set xs. fold (\<lambda>j a. fmin (fmin a (f1 j)) (f2 j)) xs a = f1 j \<or>
       fold (\<lambda>j a. fmin (fmin a (f1 j)) (f2 j)) xs a = f2 j))"
proof (induction xs arbitrary: a)
  case Nil
  then show ?case by (simp add: dle_refl)
next
  case (Cons x xs)
  let ?g = "\<lambda>j a. fmin (fmin a (f1 j)) (f2 j)"
  let ?b = "fmin (fmin a (f1 x)) (f2 x)"
  let ?R = "fold ?g xs ?b"
  have nx: "f1 x \<noteq> NaN" "f2 x \<noteq> NaN" using Cons.prems(1) by simp_all
  note p1 = fmin_props [OF Cons.prems(2) nx(1)]
  note p2 = fmin_props [OF p1(4) nx(2)]
  have rest: "\<forall>j\<in>set xs. f1 j \<noteq> NaN \<and> f2 j \<noteq> NaN" using Cons.prems(1) by simp
  note ih = Cons.IH [OF rest p2(4)]
  have R: "fold ?g (x # xs) a = ?R" by simp
  have b_a: "?b \<le> a" using p2(2) p1(2) by (rule dle_trans)
  have b_1: "?b \<le> f1 x" using p2(2) p1(3) by (rule dle_trans)
  have b_2: "?b \<le> f2 x" by (rule p2(3))
  have Rb: "?R \<le> ?b" using ih by (elim conjE)
  have c1: "?R \<noteq> NaN" using ih by (elim conjE)
  have c2: "?R \<le> a" using Rb b_a by (rule dle_trans)
  have c3: "\<forall>j\<in>set (x # xs). ?R \<le> f1 j \<and> ?R \<le> f2 j"
  proof -
    have "\<forall>j\<in>set xs. ?R \<le> f1 j \<and> ?R \<le> f2 j" using ih by (elim conjE)
    with dle_trans [OF Rb b_1] dle_trans [OF Rb b_2] show ?thesis by simp
  qed
  have bb: "?b = a \<or> ?b = f1 x \<or> ?b = f2 x"
    using p1(1) p2(1) by (elim disjE) simp_all
  have rr: "?R = ?b \<or> (\<exists>j\<in>set xs. ?R = f1 j \<or> ?R = f2 j)"
    using ih by (elim conjE)
  have c4: "?R = a \<or> (\<exists>j\<in>set (x # xs). ?R = f1 j \<or> ?R = f2 j)"
  proof (cases "?R = ?b")
    case True
    with bb show ?thesis by (elim disjE) simp_all
  next
    case False
    with rr have "\<exists>j\<in>set xs. ?R = f1 j \<or> ?R = f2 j" by simp
    then show ?thesis by simp
  qed
  show ?case unfolding R by (intro conjI c1 c2 c3 c4)
qed

lemma dle_PInf: "PInf \<le> a \<Longrightarrow> a = PInf"
  by (cases a; simp add: dbl_ops)

lemma fold_fmin_PInf:
  assumes "\<forall>j\<le>m. f1 j \<noteq> NaN \<and> f2 j \<noteq> NaN"
  defines "R \<equiv> fold (\<lambda>j a. fmin (fmin a (f1 j)) (f2 j)) [0..<Suc m] PInf"
  shows "(\<forall>j\<le>m. R \<le> f1 j \<and> R \<le> f2 j) \<and> (\<exists>j\<le>m. R = f1 j \<or> R = f2 j)"
proof -
  have set: "set [0..<Suc m] = {j. j \<le> m}" by auto
  have "\<forall>j\<in>set [0..<Suc m]. f1 j \<noteq> NaN \<and> f2 j \<noteq> NaN" using assms(1) unfolding set by simp
  from fold_fmin [OF this, of PInf]
  have a: "\<forall>j\<in>set [0..<Suc m]. R \<le> f1 j \<and> R \<le> f2 j"
    and b: "R = PInf \<or> (\<exists>j\<in>set [0..<Suc m]. R = f1 j \<or> R = f2 j)"
    unfolding R_def by simp_all
  have lo: "\<forall>j\<le>m. R \<le> f1 j \<and> R \<le> f2 j" using a unfolding set by simp
  have "\<exists>j\<le>m. R = f1 j \<or> R = f2 j"
  proof (cases "R = PInf")
    case True
    from lo have "R \<le> f1 0" by simp
    with True have "f1 0 = PInf" by (simp add: dle_PInf)
    with True show ?thesis by auto
  next
    case False
    with b show ?thesis unfolding set by auto
  qed
  with lo show ?thesis by blast
qed

lemma not_le_of_pos: "isfinite x \<Longrightarrow> Fin 0 < x \<Longrightarrow> \<not> x \<le> Fin 0"
  by (cases x) simp_all

text \<open>
  Claim C3, amended. In a step that is not aborted, \<open>h_S_max\<close> is the result of folding
  \<^verbatim>\<open>fmin\<close>, from \<^verbatim>\<open>INFINITY\<close>, over \<open>h / (|u| + c)\<close> of the left and the right reconstructed
  state of every interface \<open>0..m\<close>, with \<open>c = sqrt (gamma * p / rho)\<close>; when none of these
  values is NaN it is their minimum. With finite \<open>t_all\<close>, \<open>tau\<close> is \<open>CFL * h_S_max\<close> unless
  \<open>time_c + CFL * h_S_max > t_all - eps\<close>, and then \<open>tau\<close> is \<open>t_all - time_c\<close>, whether that is
  less or more than \<open>CFL * h_S_max\<close>. When \<open>t_all\<close> is not finite and \<^verbatim>\<open>config[16]\<close> is finite
  and positive, \<open>tau\<close> keeps the value of \<^verbatim>\<open>config[16]\<close>. \<open>time_c i\<close> is the time after the loop
  over the interfaces.
\<close>

theorem time_step_choice:
  assumes sz: "sized m s" and rc: "reconstruct lc m k s = Inr r"
    and ic: "interfaces grp lc m k r = Inr i"
  defines "s' \<equiv> state_of (GRP_step grp lc m k s)"
  defines "hS \<equiv> \<lambda>W. case W of (rho, u, p) \<Rightarrow> h_cell lc / (fabs u + dsqrt (gamma lc * p / rho))"
  shows "h_S_max s' =
      fold (\<lambda>j a. fmin (fmin a (hS (state_L lc r j))) (hS (state_R lc m r j))) [0..<Suc m] PInf \<and>
    ((\<forall>j\<le>m. hS (state_L lc r j) \<noteq> NaN \<and> hS (state_R lc m r j) \<noteq> NaN) \<longrightarrow>
       (\<forall>j\<le>m. h_S_max s' \<le> hS (state_L lc r j) \<and> h_S_max s' \<le> hS (state_R lc m r j)) \<and>
       (\<exists>j\<le>m. h_S_max s' = hS (state_L lc r j) \<or> h_S_max s' = hS (state_R lc m r j))) \<and>
    (isfinite (t_all lc) \<longrightarrow>
       tau s' = (if time_c i + CFL lc * h_S_max s' > t_all lc - eps lc
                 then t_all lc - time_c i else CFL lc * h_S_max s')) \<and>
    (\<not> isfinite (t_all lc) \<and> isfinite (config s 16) \<and> Fin 0 < config s 16 \<and>
       tau s = config s 16 \<longrightarrow> tau s' = config s 16)"
proof -
  note e = GRP_step_eq [OF sz rc ic]
  let ?u = "stepped grp lc m k r"
  note f = time_update_frame [OF e(5), of lc k]
  have hS: "h_S lc = hS" unfolding hS_def by (rule ext) (rule h_S_eq)
  have i: "stepped grp lc m k r = updated lc k m (fluxed lc (Suc m) (time_step lc i))"
    unfolding stepped_def e(2) ..
  have hm: "h_S_max s' = h_S_max i" and tau: "tau s' = tau (time_step lc i)"
    unfolding s'_def e(6) f unfolding i by simp_all
  have hr: "h_S_max r = PInf" "config r = config s" "tau r = tau s"
    unfolding e(1) by (simp_all add: recon_frame)
  have ci: "config i = config s" "tau i = tau s" unfolding e(2) using hr by simp_all
  have c1: "h_S_max s' =
      fold (\<lambda>j a. fmin (fmin a (hS (state_L lc r j))) (hS (state_R lc m r j))) [0..<Suc m] PInf"
    unfolding hm unfolding e(2) solved_def hS hr by simp
  have c2: "(\<forall>j\<le>m. h_S_max s' \<le> hS (state_L lc r j) \<and> h_S_max s' \<le> hS (state_R lc m r j)) \<and>
       (\<exists>j\<le>m. h_S_max s' = hS (state_L lc r j) \<or> h_S_max s' = hS (state_R lc m r j))"
    if "\<forall>j\<le>m. hS (state_L lc r j) \<noteq> NaN \<and> hS (state_R lc m r j) \<noteq> NaN"
    unfolding c1 using that by (rule fold_fmin_PInf)
  have c3: "tau s' = (if time_c i + CFL lc * h_S_max s' > t_all lc - eps lc
                 then t_all lc - time_c i else CFL lc * h_S_max s')"
    if "isfinite (t_all lc)"
    unfolding tau hm using that by (simp add: time_step_def Let_def)
  have c5: "tau s' = config s 16"
    if "\<not> isfinite (t_all lc) \<and> isfinite (config s 16) \<and> Fin 0 < config s 16 \<and>
       tau s = config s 16"
  proof -
    from that have a: "\<not> isfinite (t_all lc)" "isfinite (config s 16)" "Fin 0 < config s 16"
      "tau s = config s 16" by blast+
    show ?thesis
      unfolding tau using a(1,2,4) not_le_of_pos [OF a(2,3)] by (simp add: time_step_def ci)
  qed
  from c1 c2 c3 c5 show ?thesis by blast
qed

lemma ceiling_minus_one [simp]: "\<lceil>- 1 :: real\<rceil> = - 1"
  by (simp add: ceiling_eq_iff)

lemma lcE_fields [simp]:
  "t_all lcE = PInf" "eps lcE = Fin (1 / 1000)" "N_max lcE = 10" "gamma lcE = Fin 2"
  "CFL lcE = Fin (1 / 2)" "h_cell lcE = Fin 1" "bound lcE = - 1" "alpha lcE = Fin 1"
  by (simp_all add: lcE_def read_config_def cfgE_def cfgA_def)

lemma sized_stE: "sized 2 stE"
  by (simp add: sized_def stE_def entry_def rowE_def)

lemma reconE:
  "recon lcE 2 1 stE =
     stE\<lparr>h_S_max := PInf, out := [Alpha (Fin 1), Initial_bc], find_bound := True,
         UL := Fin 0, UR := Fin 1, PL := Fin 1, PR := Fin 1, RHOL := Fin 2, RHOR := Fin 2,
         s_u := [Fin 0, Fin 0], s_p := [Fin 0, Fin 0], s_rho := [Fin 0, Fin 0]\<rparr>"
  by (simp add: recon_def sloped_def ghosted_def bound_values_def bound_slopes_def
      stE_def entry_def rowE_def cfgE_def cfgA_def lim_def quot_L_def quot_R_def)

lemma reconstructE: "reconstruct lcE 2 1 stE = Inr (recon lcE 2 1 stE)"
  by (simp add: reconstruct_eq [OF sized_stE] ghost_ok_def)

lemma interfacesE:
  "interfaces jump_solver lcE 2 1 (recon lcE 2 1 stE) =
     Inr (solved jump_solver lcE 2 1 (Suc 2) (recon lcE 2 1 stE))"
proof (rule interfaces_ok [OF sized_recon [OF sized_stE]])
  show "\<forall>j\<le>2. \<not> bad_recon lcE 2 (recon lcE 2 1 stE) j"
    unfolding all_le_2 reconE
    by (simp add: bad_recon_def neg_recon_def nan_recon_def state_L_def state_R_def
        stE_def entry_def rowE_def dbl_ops)
qed

lemma steps_SucD:
  assumes "steps grp lc m (Suc n) s = Some s''"
  obtains s' where "steps grp lc m n s = Some s'" "GRP_step grp lc m (Suc n) s' = Next s''"
proof (cases "steps grp lc m n s")
  case None
  with assms show ?thesis by simp
next
  case (Some s')
  with assms have "GRP_step grp lc m (Suc n) s' = Next s''"
    by (cases "GRP_step grp lc m (Suc n) s'") simp_all
  with Some show ?thesis by (rule that)
qed

lemma main_loop_steps:
  "steps grp lc m n s = Some s' \<Longrightarrow> int n \<le> N_max lc \<Longrightarrow>
   main_loop grp lc m 1 s = main_loop grp lc m (Suc n) s'"
proof (induction n arbitrary: s')
  case 0
  then show ?case by simp
next
  case (Suc n)
  from Suc.prems(1) obtain t where t: "steps grp lc m n s = Some t"
    "GRP_step grp lc m (Suc n) t = Next s'"
    by (rule steps_SucD)
  from Suc.prems(2) have n: "int n \<le> N_max lc" by simp
  have "main_loop grp lc m 1 s = main_loop grp lc m (Suc n) t"
    by (rule Suc.IH [OF t(1) n])
  also have "\<dots> = main_loop grp lc m (Suc (Suc n)) s'"
    using Suc.prems(2) by (subst main_loop.simps) (simp add: t(2))
  finally show ?case .
qed

lemma GRP_step_cases:
  assumes "sized m s"
  obtains (Tag) "\<not> ghost_ok lc"
      "GRP_step grp lc m k s = Abort (s\<lparr>h_S_max := PInf, out := out s @ [No_suitable_bc]\<rparr>)"
    | (Recon) j0 where "ghost_ok lc" "j0 \<le> m" "bad_recon lc m (recon lc m k s) j0"
      "\<forall>j<j0. \<not> bad_recon lc m (recon lc m k s) j"
      "reconstruct lc m k s = Inr (recon lc m k s)"
      "GRP_step grp lc m k s =
         Abort ((solved grp lc m k j0 (recon lc m k s))
           \<lparr>out := out (solved grp lc m k j0 (recon lc m k s)) @
              [recon_msg lc m k (recon lc m k s) j0]\<rparr>)"
    | (Run) "ghost_ok lc" "\<forall>j\<le>m. \<not> bad_recon lc m (recon lc m k s) j"
      "reconstruct lc m k s = Inr (recon lc m k s)"
      "interfaces grp lc m k (recon lc m k s) =
         Inr (solved grp lc m k (Suc m) (recon lc m k s))"
      "GRP_step grp lc m k s = time_update lc m k (stepped grp lc m k (recon lc m k s))"
proof (cases "ghost_ok lc")
  case False
  then have "GRP_step grp lc m k s = Abort (s\<lparr>h_S_max := PInf, out := out s @ [No_suitable_bc]\<rparr>)"
    by (simp add: GRP_step_def reconstruct_eq [OF assms])
  with False show ?thesis by (rule Tag)
next
  case True
  then have rc: "reconstruct lc m k s = Inr (recon lc m k s)"
    by (simp add: reconstruct_eq [OF assms])
  note szr = sized_recon [OF assms, of lc k]
  show ?thesis
  proof (cases "\<exists>j\<le>m. bad_recon lc m (recon lc m k s) j")
    case True
    from first_bad [OF this] obtain j0 where j0: "j0 \<le> m" "bad_recon lc m (recon lc m k s) j0"
      "\<forall>j<j0. \<not> bad_recon lc m (recon lc m k s) j" by blast
    have "GRP_step grp lc m k s =
         Abort ((solved grp lc m k j0 (recon lc m k s))
           \<lparr>out := out (solved grp lc m k j0 (recon lc m k s)) @
              [recon_msg lc m k (recon lc m k s) j0]\<rparr>)"
      by (simp add: GRP_step_def rc interfaces_fail [OF j0(1) szr j0(3) j0(2)])
    with \<open>ghost_ok lc\<close> j0 rc show ?thesis by (rule Recon)
  next
    case False
    then have nb: "\<forall>j\<le>m. \<not> bad_recon lc m (recon lc m k s) j" by blast
    note ic = interfaces_ok [OF szr nb, of grp k]
    note e = GRP_step_eq [OF assms rc ic]
    from \<open>ghost_ok lc\<close> nb rc ic e(6) show ?thesis by (rule Run)
  qed
qed

lemma stepped_ghost:
  "UL (stepped grp lc m k r) = UL r"
  "UR (stepped grp lc m k r) = UR r"
  "PL (stepped grp lc m k r) = PL r"
  "PR (stepped grp lc m k r) = PR r"
  "RHOL (stepped grp lc m k r) = RHOL r"
  "RHOR (stepped grp lc m k r) = RHOR r"
  "SUL (stepped grp lc m k r) = SUL r"
  "SUR (stepped grp lc m k r) = SUR r"
  "SPL (stepped grp lc m k r) = SPL r"
  "SPR (stepped grp lc m k r) = SPR r"
  "SRHOL (stepped grp lc m k r) = SRHOL r"
  "SRHOR (stepped grp lc m k r) = SRHOR r"
  "find_bound (stepped grp lc m k r) = find_bound r"
  "config (stepped grp lc m k r) = config r"
  by (simp_all add: stepped_def)

lemma recon_ghost_values:
  "UL (recon lc m k s) =
     (if bound lc = - 1 then (if find_bound s then UL s else U0 s ! 0)
      else if bound lc = - 2 \<or> bound lc = - 24 then - (U0 s ! 0)
      else if bound lc = - 4 then U0 s ! 0
      else if bound lc = - 5 then U0 s ! (m - 1) else UL s)"
  "UR (recon lc m k s) =
     (if bound lc = - 1 then (if find_bound s then UR s else U0 s ! (m - 1))
      else if bound lc = - 2 then - (U0 s ! (m - 1))
      else if bound lc = - 4 \<or> bound lc = - 24 then U0 s ! (m - 1)
      else if bound lc = - 5 then U0 s ! 0 else UR s)"
  "PL (recon lc m k s) =
     (if bound lc = - 1 then (if find_bound s then PL s else P0 s ! 0)
      else if bound lc = - 2 \<or> bound lc = - 4 \<or> bound lc = - 24 then P0 s ! 0
      else if bound lc = - 5 then P0 s ! (m - 1) else PL s)"
  "PR (recon lc m k s) =
     (if bound lc = - 1 then (if find_bound s then PR s else P0 s ! (m - 1))
      else if bound lc = - 2 \<or> bound lc = - 4 \<or> bound lc = - 24 then P0 s ! (m - 1)
      else if bound lc = - 5 then P0 s ! 0 else PR s)"
  "RHOL (recon lc m k s) =
     (if bound lc = - 1 then (if find_bound s then RHOL s else RHO0 s ! 0)
      else if bound lc = - 2 \<or> bound lc = - 4 \<or> bound lc = - 24 then RHO0 s ! 0
      else if bound lc = - 5 then RHO0 s ! (m - 1) else RHOL s)"
  "RHOR (recon lc m k s) =
     (if bound lc = - 1 then (if find_bound s then RHOR s else RHO0 s ! (m - 1))
      else if bound lc = - 2 \<or> bound lc = - 4 \<or> bound lc = - 24 then RHO0 s ! (m - 1)
      else if bound lc = - 5 then RHO0 s ! 0 else RHOR s)"
  by (simp_all add: recon_def sloped_def ghosted_def bound_values_def bound_slopes_def)

lemma recon_ghost_slopes:
  "SUL (recon lc m k s) =
     (if bound lc = - 2 \<or> bound lc = - 24 then - (s_u (recon lc m k s) ! 0)
      else if bound lc = - 5 then s_u (recon lc m k s) ! (m - 1) else SUL s)"
  "SUR (recon lc m k s) =
     (if bound lc = - 2 then - (s_u (recon lc m k s) ! (m - 1))
      else if bound lc = - 5 then s_u (recon lc m k s) ! 0 else SUR s)"
  "SPL (recon lc m k s) = (if bound lc = - 5 then s_p (recon lc m k s) ! (m - 1) else SPL s)"
  "SPR (recon lc m k s) = (if bound lc = - 5 then s_p (recon lc m k s) ! 0 else SPR s)"
  "SRHOL (recon lc m k s) = (if bound lc = - 5 then s_rho (recon lc m k s) ! (m - 1) else SRHOL s)"
  "SRHOR (recon lc m k s) = (if bound lc = - 5 then s_rho (recon lc m k s) ! 0 else SRHOR s)"
  by (simp_all add: recon_def sloped_def bound_slopes_def)

lemma recon_find_bound: "ghost_ok lc \<Longrightarrow> find_bound (recon lc m k s)"
  by (simp add: recon_def sloped_def ghosted_find_bound)

lemma GRP_step_Next:
  assumes sz: "sized m s" and nx: "GRP_step grp lc m k s = Next s''"
  shows "sized m s''" "find_bound s''" "config s'' = config s"
    "UL s'' = UL (recon lc m k s)" "UR s'' = UR (recon lc m k s)"
    "PL s'' = PL (recon lc m k s)" "PR s'' = PR (recon lc m k s)"
    "RHOL s'' = RHOL (recon lc m k s)" "RHOR s'' = RHOR (recon lc m k s)"
    "SUL s'' = SUL (recon lc m k s)" "SUR s'' = SUR (recon lc m k s)"
    "SPL s'' = SPL (recon lc m k s)" "SPR s'' = SPR (recon lc m k s)"
    "SRHOL s'' = SRHOL (recon lc m k s)" "SRHOR s'' = SRHOR (recon lc m k s)"
    "ghost_ok lc"
proof -
  let ?r = "recon lc m k s"
  let ?u = "stepped grp lc m k ?r"
  from sz obtain ok: "ghost_ok lc" and rc: "reconstruct lc m k s = Inr ?r"
    and ic: "interfaces grp lc m k ?r = Inr (solved grp lc m k (Suc m) ?r)"
    and st: "GRP_step grp lc m k s = time_update lc m k ?u"
    using nx by (cases rule: GRP_step_cases [of m s lc grp k]) simp_all
  note e = GRP_step_eq [OF sz rc ic]
  from st nx have tu: "time_update lc m k ?u = Next s''" by simp
  have s'': "s'' = state_of (time_update lc m k ?u)" unfolding tu by simp
  note f = time_update_frame [OF e(5), of lc k]
  show "ghost_ok lc" by (rule ok)
  from tu have eq: "s'' = ?u\<lparr>time_c := time_c ?u + tau ?u,
                  RHO0 := RHO1 ?u, U0 := U1 ?u, E0 := E1 ?u, P0 := P1 ?u\<rparr>"
    unfolding time_update_eq [OF e(5)] by (simp split: if_splits)
  show "sized m s''"
    unfolding eq sized_def by (simp add: sizedD [OF e(5)])
  show "find_bound s''" unfolding s'' f stepped_ghost by (rule recon_find_bound [OF ok])
  show "config s'' = config s" unfolding eq by (simp add: stepped_ghost recon_frame)
  show "UL s'' = UL ?r" "UR s'' = UR ?r" "PL s'' = PL ?r" "PR s'' = PR ?r"
    "RHOL s'' = RHOL ?r" "RHOR s'' = RHOR ?r" "SUL s'' = SUL ?r" "SUR s'' = SUR ?r"
    "SPL s'' = SPL ?r" "SPR s'' = SPR ?r" "SRHOL s'' = SRHOL ?r" "SRHOR s'' = SRHOR ?r"
    unfolding s'' f stepped_ghost by (rule refl)+
qed

lemma steps_induct:
  assumes run: "steps grp lc m n s0 = Some s" and sz: "sized m s0" and base: "Q s0"
    and step: "\<And>k t t'. sized m t \<Longrightarrow> Q t \<Longrightarrow> GRP_step grp lc m k t = Next t' \<Longrightarrow> Q t'"
  shows "sized m s \<and> Q s"
  using run
proof (induction n arbitrary: s)
  case 0
  with sz base show ?case by simp
next
  case (Suc n)
  from Suc.prems obtain t where t: "steps grp lc m n s0 = Some t"
    "GRP_step grp lc m (Suc n) t = Next s"
    by (rule steps_SucD)
  from Suc.IH [OF t(1)] have "sized m t" "Q t" by simp_all
  from GRP_step_Next(1) [OF this(1) t(2)] step [OF this t(2)] show ?case by simp
qed

lemma zero_slopes_entry: "zero_slopes lc (entry cfg m row0 row1)"
  by (cases row0; cases row1) (simp add: zero_slopes_def entry_def)

lemma captured_entry: "captured lc m rho0 u0 p0 (entry cfg m (rho0, u0, p0, e0) row1)"
  by (cases row1) (simp add: captured_def entry_def)

lemma zero_slopes_Next:
  assumes "sized m t" "zero_slopes lc t" "GRP_step grp lc m k t = Next t'"
  shows "zero_slopes lc t'"
  using assms(2) unfolding zero_slopes_def GRP_step_Next [OF assms(1,3)] recon_ghost_slopes
  by simp

lemma captured_Next:
  assumes "sized m t" "captured lc m rho0 u0 p0 t" "GRP_step grp lc m k t = Next t'"
  shows "captured lc m rho0 u0 p0 t'"
  using assms(2) GRP_step_Next(2) [OF assms(1,3)]
  unfolding captured_def GRP_step_Next [OF assms(1,3)] recon_ghost_values
  by (simp split: if_splits)

lemma run_invariant:
  assumes sz: "sized m (entry cfg m (rho0, u0, p0, e0) row1)"
    and run: "steps grp lc m n (entry cfg m (rho0, u0, p0, e0) row1) = Some s"
  shows "sized m s" "zero_slopes lc s" "captured lc m rho0 u0 p0 s"
proof -
  have "sized m s \<and> (zero_slopes lc s \<and> captured lc m rho0 u0 p0 s)"
    using run sz
  proof (rule steps_induct)
    show "zero_slopes lc (entry cfg m (rho0, u0, p0, e0) row1) \<and>
        captured lc m rho0 u0 p0 (entry cfg m (rho0, u0, p0, e0) row1)"
      by (simp add: zero_slopes_entry captured_entry)
  next
    fix k t t'
    assume "sized m t" "zero_slopes lc t \<and> captured lc m rho0 u0 p0 t"
      "GRP_step grp lc m k t = Next t'"
    then show "zero_slopes lc t' \<and> captured lc m rho0 u0 p0 t'"
      using zero_slopes_Next captured_Next by blast
  qed
  then show "sized m s" "zero_slopes lc s" "captured lc m rho0 u0 p0 s" by simp_all
qed

lemma steppedE:
  "stepped jump_solver lcE 2 1 (recon lcE 2 1 stE) =
     (recon lcE 2 1 stE)\<lparr>h_S_max := Fin (1 / 2),
        RHO_next := [Fin 2, Fin 2, Fin 2], U_next := [Fin 0, Fin (1 / 10), Fin 1],
        P_next := [Fin 1, Fin 1, Fin 1],
        RHO_t := [Fin 0, Fin 0, Fin 0], U_t := [Fin 0, Fin 1, Fin 0],
        P_t := [Fin 0, Fin 0, Fin 0],
        F1 := [Fin 0, Fin (1 / 10), Fin 2],
        F2 := [Fin 1, Fin (201 / 200), Fin 3],
        F3 := [Fin 0, Fin (801 / 8000), Fin 3],
        RHO1 := [Fin (199 / 100), Fin (181 / 100)], U1 := [Fin (- 1 / 3980), Fin (3601 / 3620)],
        E1 := [Fin (79199 / 159200), Fin (136801 / 144800)],
        P1 := [Fin (78803 / 79600), Fin (589689 / 724000)],
        s_u := [Fin (1 / 10), Fin (9 / 10)], s_p := [Fin 0, Fin 0], s_rho := [Fin 0, Fin 0]\<rparr>"
  unfolding stepped_def unfolding reconE
  by (simp add: updated_def fluxed_def time_step_def Let_def solved_def
      mid_at_def dire_at_def solve_def state_L_def state_R_def slope_L_def
      slope_R_def jump_solver_def h_S_def star_msgs_def star_bad_def
      half_rho_def half_u_def half_p_def flux1_def flux2_def flux3_def
      new_rho_def new_Mom_def new_Ene_def new_u_def new_e_def new_p_def
      upd_msgs_def upd_bad_def upd_neg_def upd_nan_def Ex_less_Suc
      stE_def entry_def rowE_def cfgE_def cfgA_def dbl_ops eval_nat_numeral)

lemma stepE: "GRP_step jump_solver lcE 2 1 stE = Next nextE"
  unfolding GRP_step_eq(6) [OF sized_stE reconstructE interfacesE]
    time_update_eq [OF GRP_step_eq(5) [OF sized_stE reconstructE interfacesE]]
  unfolding steppedE
  unfolding reconE
  by (simp add: time_up_def nextE_def stE_def entry_def rowE_def cfgE_def cfgA_def of_step_def
      dbl_ops)

lemma stepsE: "steps jump_solver lcE 2 1 stE = Some nextE"
  using stepE by (simp add: eval_nat_numeral)

text \<open>
  Claim C6. In a run from the entry of the function, the ghost values and ghost slopes
  with which step \<open>n + 1\<close> solves the interfaces are, by boundary tag: \<open>-1\<close> the values of
  the cells \<open>0\<close> and \<open>m - 1\<close> of the initial row, in every step, with zero slopes; \<open>-2\<close> the
  negated velocity and the copied pressure and density of the cells \<open>0\<close> and \<open>m - 1\<close> of the
  current row, with the negated velocity slope of these cells and zero slopes of pressure
  and density; \<open>-4\<close> the copied cells with zero slopes; \<open>-5\<close> the left ghost from cell
  \<open>m - 1\<close> and the right ghost from cell \<open>0\<close>, values and slopes; \<open>-24\<close> the rule of \<open>-2\<close> on
  the left and of \<open>-4\<close> on the right. Any other tag makes the step print its message and
  jump to \<^verbatim>\<open>return_NULL\<close>. \<open>s\<close> is the state at the start of step \<open>n + 1\<close> and \<open>r\<close> the state
  after the slopes are limited.
\<close>

theorem boundary_refresh:
  assumes m: "0 < m" and sz: "sized m (entry cfg m (rho0, u0, p0, e0) row1)"
    and run: "steps grp lc m n (entry cfg m (rho0, u0, p0, e0) row1) = Some s"
  shows "(reconstruct lc m (Suc n) s = Inr r \<longrightarrow>
      (bound lc = - 1 \<longrightarrow>
         UL r = u0 ! 0 \<and> UR r = u0 ! (m - 1) \<and> PL r = p0 ! 0 \<and> PR r = p0 ! (m - 1) \<and>
         RHOL r = rho0 ! 0 \<and> RHOR r = rho0 ! (m - 1) \<and>
         SUL r = Fin 0 \<and> SUR r = Fin 0 \<and> SPL r = Fin 0 \<and> SPR r = Fin 0 \<and>
         SRHOL r = Fin 0 \<and> SRHOR r = Fin 0) \<and>
      (bound lc = - 2 \<longrightarrow>
         UL r = - (U0 s ! 0) \<and> UR r = - (U0 s ! (m - 1)) \<and>
         PL r = P0 s ! 0 \<and> PR r = P0 s ! (m - 1) \<and>
         RHOL r = RHO0 s ! 0 \<and> RHOR r = RHO0 s ! (m - 1) \<and>
         SUL r = - (s_u r ! 0) \<and> SUR r = - (s_u r ! (m - 1)) \<and>
         SPL r = Fin 0 \<and> SPR r = Fin 0 \<and> SRHOL r = Fin 0 \<and> SRHOR r = Fin 0) \<and>
      (bound lc = - 4 \<longrightarrow>
         UL r = U0 s ! 0 \<and> UR r = U0 s ! (m - 1) \<and>
         PL r = P0 s ! 0 \<and> PR r = P0 s ! (m - 1) \<and>
         RHOL r = RHO0 s ! 0 \<and> RHOR r = RHO0 s ! (m - 1) \<and>
         SUL r = Fin 0 \<and> SUR r = Fin 0 \<and> SPL r = Fin 0 \<and> SPR r = Fin 0 \<and>
         SRHOL r = Fin 0 \<and> SRHOR r = Fin 0) \<and>
      (bound lc = - 5 \<longrightarrow>
         UL r = U0 s ! (m - 1) \<and> UR r = U0 s ! 0 \<and>
         PL r = P0 s ! (m - 1) \<and> PR r = P0 s ! 0 \<and>
         RHOL r = RHO0 s ! (m - 1) \<and> RHOR r = RHO0 s ! 0 \<and>
         SUL r = s_u r ! (m - 1) \<and> SUR r = s_u r ! 0 \<and>
         SPL r = s_p r ! (m - 1) \<and> SPR r = s_p r ! 0 \<and>
         SRHOL r = s_rho r ! (m - 1) \<and> SRHOR r = s_rho r ! 0) \<and>
      (bound lc = - 24 \<longrightarrow>
         UL r = - (U0 s ! 0) \<and> UR r = U0 s ! (m - 1) \<and>
         PL r = P0 s ! 0 \<and> PR r = P0 s ! (m - 1) \<and>
         RHOL r = RHO0 s ! 0 \<and> RHOR r = RHO0 s ! (m - 1) \<and>
         SUL r = - (s_u r ! 0) \<and> SUR r = Fin 0 \<and>
         SPL r = Fin 0 \<and> SPR r = Fin 0 \<and> SRHOL r = Fin 0 \<and> SRHOR r = Fin 0)) \<and>
    (bound lc \<noteq> - 1 \<and> bound lc \<noteq> - 2 \<and> bound lc \<noteq> - 4 \<and> bound lc \<noteq> - 5 \<and>
       bound lc \<noteq> - 24 \<longrightarrow>
       GRP_step grp lc m (Suc n) s = Abort (s\<lparr>h_S_max := PInf, out := out s @ [No_suitable_bc]\<rparr>))"
proof -
  note inv = run_invariant [OF sz run]
  let ?r = "recon lc m (Suc n) s"
  have tag: "GRP_step grp lc m (Suc n) s =
      Abort (s\<lparr>h_S_max := PInf, out := out s @ [No_suitable_bc]\<rparr>)"
    if "bound lc \<noteq> - 1 \<and> bound lc \<noteq> - 2 \<and> bound lc \<noteq> - 4 \<and> bound lc \<noteq> - 5 \<and>
       bound lc \<noteq> - 24"
    using that by (simp add: GRP_step_def reconstruct_eq [OF inv(1)] ghost_ok_def)
  have r: "r = ?r" if "reconstruct lc m (Suc n) s = Inr r"
    using that unfolding reconstruct_eq [OF inv(1)] by (simp split: if_splits)
  have cap: "UL ?r = u0 ! 0 \<and> UR ?r = u0 ! (m - 1) \<and> PL ?r = p0 ! 0 \<and> PR ?r = p0 ! (m - 1) \<and>
         RHOL ?r = rho0 ! 0 \<and> RHOR ?r = rho0 ! (m - 1)" if "bound lc = - 1"
    using inv(3) that unfolding captured_def recon_ghost_values
    by (simp split: if_splits)
  have z1: "SUL ?r = Fin 0 \<and> SUR ?r = Fin 0 \<and> SPL ?r = Fin 0 \<and> SPR ?r = Fin 0 \<and>
         SRHOL ?r = Fin 0 \<and> SRHOR ?r = Fin 0" if "bound lc = - 1 \<or> bound lc = - 4"
    using inv(2) that unfolding zero_slopes_def recon_ghost_slopes by auto
  have z2: "SUL ?r = - (s_u ?r ! 0) \<and> SUR ?r = - (s_u ?r ! (m - 1)) \<and>
         SPL ?r = Fin 0 \<and> SPR ?r = Fin 0 \<and> SRHOL ?r = Fin 0 \<and> SRHOR ?r = Fin 0"
    if "bound lc = - 2"
    using inv(2) that unfolding zero_slopes_def recon_ghost_slopes by simp
  have z5: "SUL ?r = s_u ?r ! (m - 1) \<and> SUR ?r = s_u ?r ! 0 \<and>
         SPL ?r = s_p ?r ! (m - 1) \<and> SPR ?r = s_p ?r ! 0 \<and>
         SRHOL ?r = s_rho ?r ! (m - 1) \<and> SRHOR ?r = s_rho ?r ! 0"
    if "bound lc = - 5"
    using that unfolding recon_ghost_slopes by simp
  have z24: "SUL ?r = - (s_u ?r ! 0) \<and> SUR ?r = Fin 0 \<and>
         SPL ?r = Fin 0 \<and> SPR ?r = Fin 0 \<and> SRHOL ?r = Fin 0 \<and> SRHOR ?r = Fin 0"
    if "bound lc = - 24"
    using inv(2) that unfolding zero_slopes_def recon_ghost_slopes by simp
  have v2: "UL ?r = - (U0 s ! 0) \<and> UR ?r = - (U0 s ! (m - 1)) \<and>
         PL ?r = P0 s ! 0 \<and> PR ?r = P0 s ! (m - 1) \<and>
         RHOL ?r = RHO0 s ! 0 \<and> RHOR ?r = RHO0 s ! (m - 1)" if "bound lc = - 2"
    using that unfolding recon_ghost_values by simp
  have v4: "UL ?r = U0 s ! 0 \<and> UR ?r = U0 s ! (m - 1) \<and>
         PL ?r = P0 s ! 0 \<and> PR ?r = P0 s ! (m - 1) \<and>
         RHOL ?r = RHO0 s ! 0 \<and> RHOR ?r = RHO0 s ! (m - 1)" if "bound lc = - 4"
    using that unfolding recon_ghost_values by simp
  have v5: "UL ?r = U0 s ! (m - 1) \<and> UR ?r = U0 s ! 0 \<and>
         PL ?r = P0 s ! (m - 1) \<and> PR ?r = P0 s ! 0 \<and>
         RHOL ?r = RHO0 s ! (m - 1) \<and> RHOR ?r = RHO0 s ! 0" if "bound lc = - 5"
    using that unfolding recon_ghost_values by simp
  have v24: "UL ?r = - (U0 s ! 0) \<and> UR ?r = U0 s ! (m - 1) \<and>
         PL ?r = P0 s ! 0 \<and> PR ?r = P0 s ! (m - 1) \<and>
         RHOL ?r = RHO0 s ! 0 \<and> RHOR ?r = RHO0 s ! (m - 1)" if "bound lc = - 24"
    using that unfolding recon_ghost_values by simp
  show ?thesis
  proof (intro conjI impI)
    assume "bound lc \<noteq> - 1 \<and> bound lc \<noteq> - 2 \<and> bound lc \<noteq> - 4 \<and> bound lc \<noteq> - 5 \<and>
       bound lc \<noteq> - 24"
    then show "GRP_step grp lc m (Suc n) s =
      Abort (s\<lparr>h_S_max := PInf, out := out s @ [No_suitable_bc]\<rparr>)"
      by (rule tag)
  qed (use r cap z1 z2 z5 z24 v2 v4 v5 v24 in blast)+
qed

lemma stT_entry:
  "stT b = entry (cfgT b) 2 ([Fin 2, Fin 2], [Fin 1, Fin 1], [Fin 1, Fin 1], [Fin 1, Fin 1]) rowA"
  by (simp add: stT_def rowA_def)

lemma stA_entry:
  "stA = entry cfgA 2 ([Fin 2, Fin 2], [Fin 1, Fin 1], [Fin 1, Fin 1], [Fin 1, Fin 1]) rowA"
  by (simp add: stA_def rowA_def)

lemma stE_entry:
  "stE = entry cfgE 2 ([Fin 2, Fin 2], [Fin 0, Fin 1], [Fin 1, Fin 1], [Fin (1 / 2), Fin 1]) rowE"
  by (simp add: stE_def rowE_def)

lemma sized_stT: "sized 2 (stT b)"
  by (simp add: sized_def stT_def entry_def rowA_def)

lemma sized_nextE: "sized 2 nextE"
  by (simp add: sized_def nextE_def stE_def entry_def rowE_def)

lemma bound_lcT [simp]:
  "bound (lcT (- 4)) = - 4" "bound (lcT (- 5)) = - 5" "bound (lcT (- 24)) = - 24"
  "bound (lcT 0) = 0"
  by (simp_all add: lcT_def cfgT_def read_config_def)

lemma reconstruct_lcT:
  "reconstruct (lcT (- 4)) 2 1 (stT (- 4)) = Inr (recon (lcT (- 4)) 2 1 (stT (- 4)))"
  "reconstruct (lcT (- 5)) 2 1 (stT (- 5)) = Inr (recon (lcT (- 5)) 2 1 (stT (- 5)))"
  "reconstruct (lcT (- 24)) 2 1 (stT (- 24)) = Inr (recon (lcT (- 24)) 2 1 (stT (- 24)))"
  by (simp_all add: reconstruct_eq [OF sized_stT] ghost_ok_def)

lemma reconstruct_nextE: "reconstruct lcE 2 2 nextE = Inr (recon lcE 2 2 nextE)"
  by (simp add: reconstruct_eq [OF sized_nextE] ghost_ok_def)

theorem boundary_refresh_witness:
  "steps jump_solver lcE 2 1 stE = Some nextE \<and>
   reconstruct lcE 2 (Suc 1) nextE = Inr (recon lcE 2 2 nextE) \<and> bound lcE = - 1 \<and>
   RHO0 nextE ! 0 = Fin (199 / 100) \<and> RHOL (recon lcE 2 2 nextE) = Fin 2 \<and>
   UR (recon lcE 2 2 nextE) = Fin 1 \<and> SUL (recon lcE 2 2 nextE) = Fin 0 \<and>
   steps jump_solver lcA 2 0 stA = Some stA \<and>
   reconstruct lcA 2 (Suc 0) stA = Inr (recon lcA 2 1 stA) \<and> bound lcA = - 2 \<and>
   UL (recon lcA 2 1 stA) = Fin (- 1) \<and> PL (recon lcA 2 1 stA) = Fin 1 \<and>
   SUR (recon lcA 2 1 stA) = - (s_u (recon lcA 2 1 stA) ! (2 - 1)) \<and>
   SPL (recon lcA 2 1 stA) = Fin 0 \<and>
   steps jump_solver (lcT (- 4)) 2 0 (stT (- 4)) = Some (stT (- 4)) \<and>
   reconstruct (lcT (- 4)) 2 (Suc 0) (stT (- 4)) = Inr (recon (lcT (- 4)) 2 1 (stT (- 4))) \<and>
   bound (lcT (- 4)) = - 4 \<and>
   UL (recon (lcT (- 4)) 2 1 (stT (- 4))) = Fin 1 \<and>
   SUL (recon (lcT (- 4)) 2 1 (stT (- 4))) = Fin 0 \<and>
   steps jump_solver (lcT (- 5)) 2 0 (stT (- 5)) = Some (stT (- 5)) \<and>
   reconstruct (lcT (- 5)) 2 (Suc 0) (stT (- 5)) = Inr (recon (lcT (- 5)) 2 1 (stT (- 5))) \<and>
   bound (lcT (- 5)) = - 5 \<and>
   UL (recon (lcT (- 5)) 2 1 (stT (- 5))) = U0 (stT (- 5)) ! (2 - 1) \<and>
   SPR (recon (lcT (- 5)) 2 1 (stT (- 5))) = s_p (recon (lcT (- 5)) 2 1 (stT (- 5))) ! 0 \<and>
   steps jump_solver (lcT (- 24)) 2 0 (stT (- 24)) = Some (stT (- 24)) \<and>
   reconstruct (lcT (- 24)) 2 (Suc 0) (stT (- 24)) = Inr (recon (lcT (- 24)) 2 1 (stT (- 24))) \<and>
   bound (lcT (- 24)) = - 24 \<and>
   UL (recon (lcT (- 24)) 2 1 (stT (- 24))) = Fin (- 1) \<and>
   UR (recon (lcT (- 24)) 2 1 (stT (- 24))) = Fin 1 \<and>
   SUR (recon (lcT (- 24)) 2 1 (stT (- 24))) = Fin 0 \<and>
   steps jump_solver (lcT 0) 2 0 (stT 0) = Some (stT 0) \<and> bound (lcT 0) = 0 \<and>
   GRP_step jump_solver (lcT 0) 2 (Suc 0) (stT 0) =
     Abort ((stT 0)\<lparr>h_S_max := PInf, out := out (stT 0) @ [No_suitable_bc]\<rparr>)"
proof -
  have m: "(0::nat) < 2" by simp
  have two: "Suc 1 = 2" "Suc 0 = 1" by simp_all
  note tE = boundary_refresh [OF m sized_stE [unfolded stE_entry] stepsE [unfolded stE_entry],
      folded stE_entry, of "recon lcE 2 2 nextE"]
  have sA: "steps jump_solver lcA 2 0 stA = Some stA" by simp
  note tA = boundary_refresh [OF m sized_stA [unfolded stA_entry] sA [unfolded stA_entry],
      folded stA_entry, of "recon lcA 2 1 stA"]
  have sT: "steps jump_solver (lcT b) 2 0 (stT b) = Some (stT b)" for b by simp
  note tT = boundary_refresh [OF m sized_stT [unfolded stT_entry] sT [unfolded stT_entry],
      folded stT_entry]
  note t4 = tT [of "- 4" "recon (lcT (- 4)) 2 1 (stT (- 4))"]
  note t5 = tT [of "- 5" "recon (lcT (- 5)) 2 1 (stT (- 5))"]
  note t24 = tT [of "- 24" "recon (lcT (- 24)) 2 1 (stT (- 24))"]
  note t0 = tT [of 0]
  have rE: "reconstruct lcE 2 (Suc 1) nextE = Inr (recon lcE 2 2 nextE)"
    unfolding two by (rule reconstruct_nextE)
  have rA: "reconstruct lcA 2 (Suc 0) stA = Inr (recon lcA 2 1 stA)"
    unfolding two by (rule reconstructA)
  have rT: "reconstruct (lcT (- 4)) 2 (Suc 0) (stT (- 4)) = Inr (recon (lcT (- 4)) 2 1 (stT (- 4)))"
    "reconstruct (lcT (- 5)) 2 (Suc 0) (stT (- 5)) = Inr (recon (lcT (- 5)) 2 1 (stT (- 5)))"
    "reconstruct (lcT (- 24)) 2 (Suc 0) (stT (- 24)) = Inr (recon (lcT (- 24)) 2 1 (stT (- 24)))"
    unfolding two by (rule reconstruct_lcT)+
  have bE: "bound lcE = - 1" and bA: "bound lcA = - 2" by simp_all
  have vE: "RHO0 nextE ! 0 = Fin (199 / 100)" by (simp add: nextE_def)
  from tE rE bE have cE: "RHOL (recon lcE 2 2 nextE) = [Fin 2, Fin 2] ! 0"
    "UR (recon lcE 2 2 nextE) = [Fin 0, Fin 1] ! (2 - 1)" "SUL (recon lcE 2 2 nextE) = Fin 0"
    by blast+
  have cE': "RHOL (recon lcE 2 2 nextE) = Fin 2" "UR (recon lcE 2 2 nextE) = Fin 1"
    unfolding cE by simp_all
  from tA rA bA have cA: "UL (recon lcA 2 1 stA) = - (U0 stA ! 0)"
    "PL (recon lcA 2 1 stA) = P0 stA ! 0"
    "SUR (recon lcA 2 1 stA) = - (s_u (recon lcA 2 1 stA) ! (2 - 1))"
    "SPL (recon lcA 2 1 stA) = Fin 0"
    by blast+
  have cA': "UL (recon lcA 2 1 stA) = Fin (- 1)" "PL (recon lcA 2 1 stA) = Fin 1"
    unfolding cA by (simp_all add: stA_def entry_def rowA_def)
  from t4 rT(1) bound_lcT(1) have c4: "UL (recon (lcT (- 4)) 2 1 (stT (- 4))) = U0 (stT (- 4)) ! 0"
    "SUL (recon (lcT (- 4)) 2 1 (stT (- 4))) = Fin 0"
    by blast+
  have c4': "UL (recon (lcT (- 4)) 2 1 (stT (- 4))) = Fin 1"
    unfolding c4 by (simp add: stT_def entry_def rowA_def)
  from t5 rT(2) bound_lcT(2) have c5:
    "UL (recon (lcT (- 5)) 2 1 (stT (- 5))) = U0 (stT (- 5)) ! (2 - 1)"
    "SPR (recon (lcT (- 5)) 2 1 (stT (- 5))) = s_p (recon (lcT (- 5)) 2 1 (stT (- 5))) ! 0"
    by blast+
  from t24 rT(3) bound_lcT(3) have c24:
    "UL (recon (lcT (- 24)) 2 1 (stT (- 24))) = - (U0 (stT (- 24)) ! 0)"
    "UR (recon (lcT (- 24)) 2 1 (stT (- 24))) = U0 (stT (- 24)) ! (2 - 1)"
    "SUR (recon (lcT (- 24)) 2 1 (stT (- 24))) = Fin 0"
    by blast+
  have c24': "UL (recon (lcT (- 24)) 2 1 (stT (- 24))) = Fin (- 1)"
    "UR (recon (lcT (- 24)) 2 1 (stT (- 24))) = Fin 1"
    unfolding c24 by (simp_all add: stT_def entry_def rowA_def)
  from t0 bound_lcT(4) have c0: "GRP_step jump_solver (lcT 0) 2 (Suc 0) (stT 0) =
     Abort ((stT 0)\<lparr>h_S_max := PInf, out := out (stT 0) @ [No_suitable_bc]\<rparr>)"
    by simp
  show ?thesis
    by (intro conjI stepsE rE bE vE cE' cE(3) sA rA bA cA' cA(3,4) sT rT bound_lcT c4' c4(2)
        c5 c24' c24(3) c0)
qed

lemma dsign_Fin: "dsign (Fin a) = Fin (sgn a)"
  by (simp add: dsign_def sgn_real_def)

lemma fmin_Fin: "fmin (Fin a) (Fin b) = Fin (min a b)"
  by (simp add: dbl_ops min_def)

lemma minmod3_eval [simp]: "minmod3 (Fin a) (Fin b) (Fin c) =
   (if 0 < a \<and> 0 < b \<and> 0 < c then Fin (min (min a b) c)
    else if a < 0 \<and> b < 0 \<and> c < 0 then Fin (max (max a b) c) else Fin 0)"
proof -
  consider "0 < a" | "a < 0" | "a = 0" by linarith
  then show ?thesis
  proof cases
    case 1
    then show ?thesis
      by (simp add: minmod3_def dsign_Fin fmin_Fin sgn_real_def)
  next
    case 2
    then show ?thesis
      by (simp add: minmod3_def dsign_Fin fmin_Fin sgn_real_def min_def max_def)
  next
    case 3
    then show ?thesis
      by (simp add: minmod3_def dsign_Fin fmin_Fin sgn_real_def)
  qed
qed

text \<open>
  Claim C4. After the slopes are limited in step \<open>k\<close>, the slope of every cell \<open>j < m\<close> is,
  for each of \<open>u\<close>, \<open>p\<close>, \<open>rho\<close> by itself, \<open>minmod2 (s_L, s_R)\<close> when \<open>k = 1\<close> and
  \<open>minmod3 (alpha * s_L, alpha * s_R, s_prev)\<close> otherwise, where \<open>s_L\<close> and \<open>s_R\<close> are the
  one-sided difference quotients of row \<open>n - 1\<close> (with the ghost value in place of the
  missing neighbour at the two ends) and \<open>s_prev\<close> is the slope the cell has at the start
  of the step, which is the one the previous step stored. \<open>s\<close> is the state at the start
  of the step and \<open>r\<close> the state after the slopes are limited.
\<close>

theorem slope_limiting:
  assumes sz: "sized m s" and rc: "reconstruct lc m k s = Inr r" and j: "j < m"
  defines "dL \<equiv> \<lambda>V VL. if j \<noteq> 0 then (V ! j - V ! (j - 1)) / h_cell lc
                      else (V ! j - VL) / h_cell lc"
  defines "dR \<equiv> \<lambda>V VR. if j + 1 < m then (V ! (j + 1) - V ! j) / h_cell lc
                      else (VR - V ! j) / h_cell lc"
  shows "s_u r ! j =
      (if k = 1 then minmod2 (dL (U0 s) (UL r)) (dR (U0 s) (UR r))
       else minmod3 (alpha lc * dL (U0 s) (UL r)) (alpha lc * dR (U0 s) (UR r)) (s_u s ! j)) \<and>
    s_p r ! j =
      (if k = 1 then minmod2 (dL (P0 s) (PL r)) (dR (P0 s) (PR r))
       else minmod3 (alpha lc * dL (P0 s) (PL r)) (alpha lc * dR (P0 s) (PR r)) (s_p s ! j)) \<and>
    s_rho r ! j =
      (if k = 1 then minmod2 (dL (RHO0 s) (RHOL r)) (dR (RHO0 s) (RHOR r))
       else minmod3 (alpha lc * dL (RHO0 s) (RHOL r)) (alpha lc * dR (RHO0 s) (RHOR r))
              (s_rho s ! j))"
proof -
  have r: "r = recon lc m k s"
    using rc unfolding reconstruct_eq [OF sz] by (simp split: if_splits)
  have jm: "int j < int m - 1 \<longleftrightarrow> j + 1 < m" by auto
  have q: "quot_L lc V VL j = dL V VL" "quot_R lc m V VR j = dR V VR" for V VL VR
    unfolding quot_L_def quot_R_def dL_def dR_def jm by simp_all
  have l: "lim lc m k V VL VR sv j =
      (if k = 1 then minmod2 (dL V VL) (dR V VR)
       else minmod3 (alpha lc * dL V VL) (alpha lc * dR V VR) (sv ! j))" for V VL VR sv
    unfolding lim_def q ..
  have n: "map f [0..<m] ! j = f j" for f :: "nat \<Rightarrow> dbl"
    using j by simp
  show ?thesis
    unfolding r recon_slopes n l by (intro conjI refl)
qed

theorem slope_limiting_witness:
  "sized 2 stA \<and> reconstruct lcA 2 1 stA = Inr (recon lcA 2 1 stA) \<and> (0::nat) < 2 \<and>
   s_u (recon lcA 2 1 stA) ! 0 =
     minmod2 ((U0 stA ! 0 - UL (recon lcA 2 1 stA)) / h_cell lcA)
       ((U0 stA ! (0 + 1) - U0 stA ! 0) / h_cell lcA) \<and>
   s_u (recon lcA 2 1 stA) ! 0 = Fin 0 \<and>
   sized 2 nextE \<and> reconstruct lcE 2 2 nextE = Inr (recon lcE 2 2 nextE) \<and> (1::nat) < 2 \<and>
   s_u nextE ! 1 = Fin (9 / 10) \<and>
   s_u (recon lcE 2 2 nextE) ! 1 =
     minmod3 (alpha lcE * ((U0 nextE ! 1 - U0 nextE ! (1 - 1)) / h_cell lcE))
       (alpha lcE * ((UR (recon lcE 2 2 nextE) - U0 nextE ! 1) / h_cell lcE)) (s_u nextE ! 1) \<and>
   s_u (recon lcE 2 2 nextE) ! 1 = Fin (19 / 3620)"
proof -
  have j0: "(0::nat) < 2" and j1: "(1::nat) < 2" by simp_all
  note a = slope_limiting [OF sized_stA reconstructA j0, THEN conjunct1]
  note e = slope_limiting [OF sized_nextE reconstruct_nextE j1, THEN conjunct1]
  have a1: "s_u (recon lcA 2 1 stA) ! 0 =
     minmod2 ((U0 stA ! 0 - UL (recon lcA 2 1 stA)) / h_cell lcA)
       ((U0 stA ! (0 + 1) - U0 stA ! 0) / h_cell lcA)"
    using a by simp
  have a2: "s_u (recon lcA 2 1 stA) ! 0 = Fin 0"
    unfolding reconA by simp
  have e1: "s_u (recon lcE 2 2 nextE) ! 1 =
     minmod3 (alpha lcE * ((U0 nextE ! 1 - U0 nextE ! (1 - 1)) / h_cell lcE))
       (alpha lcE * ((UR (recon lcE 2 2 nextE) - U0 nextE ! 1) / h_cell lcE)) (s_u nextE ! 1)"
    using e by simp
  have ur: "UR (recon lcE 2 2 nextE) = Fin 1"
    unfolding recon_ghost_values by (simp add: nextE_def)
  have e0: "s_u nextE ! 1 = Fin (9 / 10)" by (simp add: nextE_def)
  have e2: "s_u (recon lcE 2 2 nextE) ! 1 = Fin (19 / 3620)"
    unfolding e1 ur by (simp add: nextE_def)
  show ?thesis
    by (intro conjI sized_stA reconstructA j0 a1 a2 sized_nextE reconstruct_nextE j1 e0 e1 e2)
qed

lemma lcB_fields [simp]:
  "t_all lcB = Fin 1" "eps lcB = Fin (1 / 1000)" "N_max lcB = 10" "gamma lcB = Fin 2"
  "CFL lcB = Fin (1 / 2)" "h_cell lcB = Fin 1" "bound lcB = - 5" "alpha lcB = Fin 1"
  by (simp_all add: lcB_def read_config_def cfgB_def cfgA_def)

lemma lcF_fields [simp]:
  "t_all lcF = Fin 1" "eps lcF = Fin 5" "N_max lcF = 10" "gamma lcF = Fin 2"
  "CFL lcF = Fin (1 / 2)" "h_cell lcF = Fin 1" "bound lcF = - 2" "alpha lcF = Fin 1"
  by (simp_all add: lcF_def read_config_def cfgF_def cfgA_def)

lemma sized_stB: "sized 3 stB"
  by (simp add: sized_def stB_def entry_def rowB_def)

lemma sized_stF: "sized 2 stF"
  by (simp add: sized_def stF_def entry_def rowA_def)

lemma reconstructB: "reconstruct lcB 3 1 stB = Inr (recon lcB 3 1 stB)"
  by (simp add: reconstruct_eq [OF sized_stB] ghost_ok_def)

lemma reconstructF: "reconstruct lcF 2 1 stF = Inr (recon lcF 2 1 stF)"
  by (simp add: reconstruct_eq [OF sized_stF] ghost_ok_def)

lemma reconB:
  "recon lcB 3 1 stB =
     stB\<lparr>h_S_max := PInf, out := [Alpha (Fin 1), Periodic_bc], find_bound := True,
         UL := Fin 0, UR := Fin 0, PL := Fin 1, PR := Fin 1, RHOL := Fin 1, RHOR := Fin 2,
         s_u := [Fin 0, Fin 0, Fin 0], s_p := [Fin 0, Fin 0, Fin 0],
         s_rho := [Fin 1, Fin 0, Fin 0],
         SUL := Fin 0, SUR := Fin 0, SPL := Fin 0, SPR := Fin 0,
         SRHOL := Fin 0, SRHOR := Fin 1\<rparr>"
  by (simp add: recon_def sloped_def ghosted_def bound_values_def bound_slopes_def
      stB_def entry_def rowB_def cfgB_def cfgA_def lim_def quot_L_def quot_R_def dbl_ops)

text \<open>
  Claim C7: the stepper departs from it at the last interface. With periodic boundaries
  (example B, three cells of density 2, 3, 1 and \<open>h = 1\<close>) the right ghost is cell 0 with
  its slope 1. The right state of interface 3 gets the density \<open>2 + 0.5 = 5/2\<close>, where
  \<open>cell - 0.5 * h * s\<close> gives \<open>3/2\<close>, which is also what the stepper itself takes at
  interface 0, the same face of the same cell.
\<close>

theorem right_ghost_state_plus:
  "reconstruct lcB 3 1 stB = Inr (recon lcB 3 1 stB) \<and>
   RHOR (recon lcB 3 1 stB) = Fin 2 \<and> SRHOR (recon lcB 3 1 stB) = Fin 1 \<and>
   fst (state_R lcB 3 (recon lcB 3 1 stB) 3) = Fin (5 / 2) \<and>
   RHOR (recon lcB 3 1 stB) - Fin 0.5 * h_cell lcB * SRHOR (recon lcB 3 1 stB) = Fin (3 / 2) \<and>
   fst (state_R lcB 3 (recon lcB 3 1 stB) 0) = Fin (3 / 2) \<and>
   Fin (5 / 2) \<noteq> Fin (3 / 2)"
  unfolding reconstructB reconB
  by (simp add: state_R_def stB_def entry_def rowB_def)

lemma reconF:
  "recon lcF 2 1 stF =
     stF\<lparr>h_S_max := PInf, out := [Alpha (Fin 1), Reflective_bc], find_bound := True,
         UL := Fin (- 1), UR := Fin (- 1), PL := Fin 1, PR := Fin 1, RHOL := Fin 2, RHOR := Fin 2,
         s_u := [Fin 0, Fin 0], s_p := [Fin 0, Fin 0], s_rho := [Fin 0, Fin 0],
         SUL := Fin 0, SUR := Fin 0\<rparr>"
  by (simp add: recon_def sloped_def ghosted_def bound_values_def bound_slopes_def
      stF_def entry_def rowA_def cfgF_def cfgA_def lim_def quot_L_def quot_R_def
      lcF_fields upt_2 slope_cell_def minmod2_eval)

lemma stepped_config: "config (stepped grp lc m k r) = config r"
  unfolding stepped_def by simp

lemma upd_bad_updated [simp]: "upd_bad lc (updated lc' k n s) = upd_bad lc s"
  by (simp add: fun_eq_iff upd_bad_def upd_neg_def upd_nan_def)

lemma upd_msgs_updated [simp]: "upd_msgs lc k' (updated lc' k n s) = upd_msgs lc k' s"
  by (simp add: fun_eq_iff upd_msgs_def upd_neg_def upd_nan_def)

lemma time_c_updated:
  "time_c (updated lc k n f) = (if \<exists>j<n. upd_bad lc f j then t_all lc else time_c f)"
  by (simp add: updated_def)

lemma time_c_solved:
  "time_c (solved grp lc m k n r) =
     (if \<exists>j<n. star_bad lc (mid_at grp lc m r j) then t_all lc else time_c r)"
  by (simp add: solved_def)

lemma out_updated:
  "out (updated lc k n f) = out f @ concat (map (upd_msgs lc k f) [0..<n])"
  by (simp add: updated_def)

lemma out_solved:
  "out (solved grp lc m k n r) =
     out r @ concat (map (\<lambda>j. star_msgs lc k j (mid_at grp lc m r j)) [0..<n])"
  by (simp add: solved_def)

lemma out_fluxed [simp]: "out (fluxed lc n s) = out s"
  by (simp add: fluxed_def)

lemma out_time_step [simp]: "out (time_step lc s) = out s"
  by (simp add: time_step_def Let_def)

lemma stepped_time_c:
  "time_c (stepped grp lc m k r) =
     (if \<exists>j<m. upd_bad lc (stepped grp lc m k r) j then t_all lc
      else if \<exists>j\<le>m. star_bad lc (mid_at grp lc m r j) then t_all lc else time_c r)"
  unfolding stepped_def upd_bad_updated time_c_updated
  apply (simp add: time_c_solved less_Suc_eq_le del: ex_simps all_simps)
  apply blast
  done

lemma stepped_out:
  "out (stepped grp lc m k r) =
     out r @ concat (map (\<lambda>j. star_msgs lc k j (mid_at grp lc m r j)) [0..<Suc m]) @
     concat (map (upd_msgs lc k (stepped grp lc m k r)) [0..<m])"
  unfolding stepped_def upd_msgs_updated out_updated
  by (simp add: out_solved del: upt_Suc)

lemma star_msgs_bad:
  "star_bad lc mid \<Longrightarrow> Neg_STAR k j \<in> set (star_msgs lc k j mid) \<or>
     NaN_STAR k j \<in> set (star_msgs lc k j mid)"
  by (cases mid) (auto simp add: star_bad_def star_msgs_def)

lemma upd_msgs_bad:
  "upd_bad lc s j \<Longrightarrow> Neg_Update k j \<in> set (upd_msgs lc k s j) \<or>
     NaN_Update k j \<in> set (upd_msgs lc k s j)"
  by (auto simp add: upd_bad_def upd_msgs_def)

lemma stepped_star_msg:
  assumes "j \<le> m" "star_bad lc (mid_at grp lc m r j)"
  shows "Neg_STAR k j \<in> set (out (stepped grp lc m k r)) \<or>
     NaN_STAR k j \<in> set (out (stepped grp lc m k r))"
proof -
  have "j \<in> set [0..<Suc m]" using assms(1) by (simp del: upt_Suc)
  with star_msgs_bad [OF assms(2), of k j] show ?thesis
    unfolding stepped_out by (auto simp del: upt_Suc)
qed

lemma stepped_upd_msg:
  assumes "j < m" "upd_bad lc (stepped grp lc m k r) j"
  shows "Neg_Update k j \<in> set (out (stepped grp lc m k r)) \<or>
     NaN_Update k j \<in> set (out (stepped grp lc m k r))"
proof -
  have "j \<in> set [0..<m]" using assms(1) by simp
  with upd_msgs_bad [OF assms(2), of k] show ?thesis
    unfolding stepped_out by (auto simp del: upt_Suc)
qed

lemma Abort_old_row:
  assumes "sized m s" "j0 \<le> m"
    "GRP_step grp lc m k s =
       Abort ((solved grp lc m k j0 (recon lc m k s))
         \<lparr>out := out (solved grp lc m k j0 (recon lc m k s)) @ [msg]\<rparr>)"
  shows "\<exists>a. GRP_step grp lc m k s = Abort a \<and> last (out a) = msg \<and>
      RHO0 a = RHO0 s \<and> U0 a = U0 s \<and> P0 a = P0 s \<and> E0 a = E0 s"
  unfolding assms(3) by (simp add: recon_frame)


lemma no_bad_reconA: "\<forall>j\<le>2. \<not> bad_recon lcA 2 (recon lcA 2 1 stA) j"
  unfolding all_le_2 reconA
  by (simp add: bad_recon_def neg_recon_def nan_recon_def state_L_def state_R_def
        stA_def entry_def rowA_def dbl_ops)

lemma bad_reconF: "bad_recon lcF 2 (recon lcF 2 1 stF) 0"
  unfolding reconF
  by (simp add: bad_recon_def neg_recon_def nan_recon_def state_L_def state_R_def
        stF_def entry_def rowA_def dbl_ops)

lemma recon_msgF: "recon_msg lcF 2 1 (recon lcF 2 1 stF) 0 = Neg_Reconstruction 1 0"
  unfolding reconF
  by (simp add: recon_msg_def neg_recon_def state_L_def state_R_def
        stF_def entry_def rowA_def dbl_ops)

lemma stepF: "GRP_step jump_solver lcF 2 1 stF = Abort abortF"
proof -
  have "interfaces jump_solver lcF 2 1 (recon lcF 2 1 stF) =
     Inl ((recon lcF 2 1 stF)\<lparr>out := out (recon lcF 2 1 stF) @ [Neg_Reconstruction 1 0]\<rparr>)"
    using interfaces_fail [OF _ sized_recon [OF sized_stF] _ bad_reconF, of jump_solver 1]
    unfolding solved_0 recon_msgF by simp
  then show ?thesis
    unfolding GRP_step_def reconstructF
    unfolding reconF abortF_def
    by (simp add: stF_def entry_def)
qed

lemma main_loopF: "GRP_solver_EUL_source jump_solver cfgF 2 rowA rowA = Abort abortF"
  unfolding GRP_solver_EUL_source_def lcF_def [symmetric] stF_def [symmetric]
  by (subst main_loop.simps) (simp add: stepF del: One_nat_def)

lemma star_badV: "star_bad lcA (mid_at vacuum_solver lcA 2 (recon lcA 2 1 stA) 0)"
  unfolding reconA
  by (simp add: star_bad_def mid_at_def solve_def vacuum_solver_def state_L_def state_R_def
      slope_L_def slope_R_def stA_def entry_def rowA_def dbl_ops)

lemma upd_badA: "upd_bad lcA (stepped jump_solver lcA 2 1 (recon lcA 2 1 stA)) 0"
  unfolding steppedA unfolding reconA
  by (simp add: upd_bad_def upd_neg_def upd_nan_def new_p_def new_rho_def new_Mom_def new_Ene_def
      new_u_def stA_def entry_def rowA_def dbl_ops)

text \<open>
  Claim C8 as stated fails twice. In example F the first interface of step 1 has a
  reconstructed pressure below \<open>eps\<close>: the function returns with the line printed and
  \<^verbatim>\<open>config[5]\<close> still 10, not 1. In example A the update of cell 0 in step 1 gives a negative
  pressure: the line is printed, yet cell 1 is then updated, the slopes are refreshed and
  the time goes to \<open>t_all + tau\<close>; only the test at the end of the step leaves the loop.
\<close>

theorem failure_not_immediate:
  "GRP_solver_EUL_source jump_solver cfgF 2 rowA rowA = Abort abortF \<and>
   last (out abortF) = Neg_Reconstruction 1 0 \<and>
   config abortF 5 = Fin 10 \<and> of_step 1 = Fin 1 \<and> config abortF 5 \<noteq> of_step 1 \<and>
   GRP_step jump_solver lcA 2 1 stA = Break endA \<and>
   P1 endA ! 0 = Fin (- 41 / 64) \<and> P1 endA ! 0 < eps lcA \<and>
   out endA = [Alpha (Fin 1), Reflective_bc, Neg_Update 1 0] \<and>
   RHO1 stA ! 1 = Fin 2 \<and> RHO1 endA ! 1 = Fin (17 / 8) \<and>
   s_u stA ! 1 = Fin 0 \<and> s_u endA ! 1 = Fin (- 1 / 2) \<and>
   t_all lcA = Fin 1 \<and> time_c endA = Fin (5 / 4)"
  unfolding main_loopF stepA
  by (simp add: abortF_def endA_def stF_def stA_def entry_def rowA_def cfgF_def cfgA_def
      of_step_def)

lemma ghost_ok_lcF: "ghost_ok lcF"
  by (simp add: ghost_ok_def)

lemma tauA: "tau (stepped jump_solver lcA 2 1 (recon lcA 2 1 stA)) = Fin (1 / 4)"
  unfolding steppedA by simp


lemma lcH_fields [simp]:
  "t_all lcH = Fin (257 / 1024)" "eps lcH = Fin (1 / 512)" "N_max lcH = 10" "gamma lcH = Fin 2"
  "CFL lcH = Fin (1 / 2)" "h_cell lcH = Fin 1" "bound lcH = - 2" "alpha lcH = Fin 1"
  by (simp_all add: lcH_def read_config_def cfgH_def cfgA_def)

lemma sized_stH: "sized 2 stH"
  by (simp add: sized_def stH_def entry_def rowA_def)

lemma reconH:
  "recon lcH 2 1 stH =
     stH\<lparr>h_S_max := PInf, out := [Alpha (Fin 1), Reflective_bc], find_bound := True,
         UL := Fin (- 1), UR := Fin (- 1), PL := Fin 1, PR := Fin 1, RHOL := Fin 2, RHOR := Fin 2,
         s_u := [Fin 0, Fin 0], s_p := [Fin 0, Fin 0], s_rho := [Fin 0, Fin 0],
         SUL := Fin 0, SUR := Fin 0\<rparr>"
  by (simp add: recon_def sloped_def ghosted_def bound_values_def bound_slopes_def
      stH_def entry_def rowA_def cfgH_def cfgA_def lim_def quot_L_def quot_R_def)

lemma reconstructH: "reconstruct lcH 2 1 stH = Inr (recon lcH 2 1 stH)"
  by (simp add: reconstruct_eq [OF sized_stH] ghost_ok_def)

lemma interfacesH:
  "interfaces jump_solver lcH 2 1 (recon lcH 2 1 stH) =
     Inr (solved jump_solver lcH 2 1 (Suc 2) (recon lcH 2 1 stH))"
proof (rule interfaces_ok [OF sized_recon [OF sized_stH]])
  show "\<forall>j\<le>2. \<not> bad_recon lcH 2 (recon lcH 2 1 stH) j"
    unfolding all_le_2 reconH
    by (simp add: bad_recon_def neg_recon_def nan_recon_def state_L_def state_R_def
        stH_def entry_def rowA_def dbl_ops)
qed

lemma solvedH:
  "solved jump_solver lcH 2 1 (Suc 2) (recon lcH 2 1 stH) =
     (recon lcH 2 1 stH)\<lparr>h_S_max := Fin (1 / 2),
        RHO_next := [Fin 2, Fin 2, Fin 2], U_next := [Fin (- 1), Fin 1, Fin 1],
        P_next := [Fin 1, Fin 1, Fin 1],
        RHO_t := [Fin 0, Fin 0, Fin 0], U_t := [Fin 2, Fin 0, Fin (- 2)],
        P_t := [Fin 0, Fin 0, Fin 0]\<rparr>"
  unfolding reconH
  by (simp add: solved_def mid_at_def dire_at_def solve_def state_L_def state_R_def slope_L_def
      slope_R_def jump_solver_def h_S_def star_msgs_def star_bad_def
      stH_def entry_def rowA_def cfgH_def cfgA_def dbl_ops eval_nat_numeral)

lemma step_tau:
  assumes "sized m s" "reconstruct lc m k s = Inr r" "interfaces grp lc m k r = Inr i"
  shows "tau (state_of (GRP_step grp lc m k s)) = tau (time_step lc i)"
    "h_S_max (state_of (GRP_step grp lc m k s)) = h_S_max i"
    "time_c i = (if \<exists>j\<le>m. star_bad lc (mid_at grp lc m r j) then t_all lc else time_c s)"
proof -
  note e = GRP_step_eq [OF assms]
  note f = time_update_frame [OF e(5), of lc k]
  have i: "stepped grp lc m k r = updated lc k m (fluxed lc (Suc m) (time_step lc i))"
    unfolding stepped_def e(2) ..
  show "tau (state_of (GRP_step grp lc m k s)) = tau (time_step lc i)"
    "h_S_max (state_of (GRP_step grp lc m k s)) = h_S_max i"
    unfolding e(6) f unfolding i by simp_all
  show "time_c i = (if \<exists>j\<le>m. star_bad lc (mid_at grp lc m r j) then t_all lc else time_c s)"
    unfolding e(2) time_c_solved unfolding e(1) by (auto simp add: less_Suc_eq_le recon_frame)
qed

lemma tauH:
  "h_S_max (state_of (GRP_step jump_solver lcH 2 1 stH)) = Fin (1 / 2)"
  "tau (state_of (GRP_step jump_solver lcH 2 1 stH)) = Fin (257 / 1024)"
  "time_c (solved jump_solver lcH 2 1 (Suc 2) (recon lcH 2 1 stH)) = Fin 0"
  unfolding step_tau(1,2) [OF sized_stH reconstructH interfacesH] solvedH
  unfolding reconH
  by (simp_all add: time_step_def Let_def stH_def entry_def rowA_def cfgH_def cfgA_def)

text \<open>
  Claim C3 as stated fails: the clamp is not a minimum. In example H the time is 0 and
  \<open>CFL * h_S_max = 1 / 4\<close> is less than \<open>t_all = 257 / 1024\<close>, so a step of \<open>1 / 4\<close> would
  not pass \<open>t_all\<close>; but \<open>1 / 4 > t_all - eps = 255 / 1024\<close>, and the stepper takes
  \<open>tau = t_all - time_c = 257 / 1024\<close>, which is more than \<open>CFL * h_S_max\<close>.
\<close>

theorem clamp_raises_tau:
  "time_c stH = Fin 0 \<and> t_all lcH = Fin (257 / 1024) \<and>
   h_S_max (state_of (GRP_step jump_solver lcH 2 1 stH)) = Fin (1 / 2) \<and>
   CFL lcH * h_S_max (state_of (GRP_step jump_solver lcH 2 1 stH)) = Fin (1 / 4) \<and>
   time_c stH + CFL lcH * h_S_max (state_of (GRP_step jump_solver lcH 2 1 stH)) \<le> t_all lcH \<and>
   tau (state_of (GRP_step jump_solver lcH 2 1 stH)) = Fin (257 / 1024) \<and>
   CFL lcH * h_S_max (state_of (GRP_step jump_solver lcH 2 1 stH)) <
     tau (state_of (GRP_step jump_solver lcH 2 1 stH)) \<and>
   tau (state_of (GRP_step jump_solver lcH 2 1 stH)) \<noteq>
     CFL lcH * h_S_max (state_of (GRP_step jump_solver lcH 2 1 stH))"
  unfolding tauH by (simp add: stH_def entry_def rowA_def)

lemma hS_A:
  "(case state_L lcA (recon lcA 2 1 stA) 0 of
      (rho, u, p) \<Rightarrow> h_cell lcA / (fabs u + dsqrt (gamma lcA * p / rho))) = Fin (1 / 2)"
  unfolding reconA
  by (simp add: state_L_def stA_def entry_def rowA_def dbl_ops)

theorem time_step_choice_witness:
  "sized 2 stA \<and> reconstruct lcA 2 1 stA = Inr (recon lcA 2 1 stA) \<and>
   interfaces jump_solver lcA 2 1 (recon lcA 2 1 stA) =
     Inr (solved jump_solver lcA 2 1 (Suc 2) (recon lcA 2 1 stA)) \<and>
   isfinite (t_all lcA) \<and>
   time_c (solved jump_solver lcA 2 1 (Suc 2) (recon lcA 2 1 stA)) = Fin 0 \<and>
   h_S_max endA = Fin (1 / 2) \<and>
   h_S_max endA =
     (case state_L lcA (recon lcA 2 1 stA) 0 of
        (rho, u, p) \<Rightarrow> h_cell lcA / (fabs u + dsqrt (gamma lcA * p / rho))) \<and>
   (case state_R lcA 2 (recon lcA 2 1 stA) 2 of
      (rho, u, p) \<Rightarrow> h_cell lcA / (fabs u + dsqrt (gamma lcA * p / rho))) \<noteq> NaN \<and>
   h_S_max endA \<le>
     (case state_R lcA 2 (recon lcA 2 1 stA) 2 of
        (rho, u, p) \<Rightarrow> h_cell lcA / (fabs u + dsqrt (gamma lcA * p / rho))) \<and>
   tau endA =
     (if time_c (solved jump_solver lcA 2 1 (Suc 2) (recon lcA 2 1 stA)) + CFL lcA * h_S_max endA
          > t_all lcA - eps lcA
      then t_all lcA - time_c (solved jump_solver lcA 2 1 (Suc 2) (recon lcA 2 1 stA))
      else CFL lcA * h_S_max endA) \<and>
   tau endA = CFL lcA * h_S_max endA \<and> tau endA = Fin (1 / 4) \<and>
   sized 2 stH \<and> reconstruct lcH 2 1 stH = Inr (recon lcH 2 1 stH) \<and>
   interfaces jump_solver lcH 2 1 (recon lcH 2 1 stH) =
     Inr (solved jump_solver lcH 2 1 (Suc 2) (recon lcH 2 1 stH)) \<and>
   isfinite (t_all lcH) \<and>
   tau (state_of (GRP_step jump_solver lcH 2 1 stH)) =
     (if time_c (solved jump_solver lcH 2 1 (Suc 2) (recon lcH 2 1 stH)) +
           CFL lcH * h_S_max (state_of (GRP_step jump_solver lcH 2 1 stH))
          > t_all lcH - eps lcH
      then t_all lcH - time_c (solved jump_solver lcH 2 1 (Suc 2) (recon lcH 2 1 stH))
      else CFL lcH * h_S_max (state_of (GRP_step jump_solver lcH 2 1 stH))) \<and>
   tau (state_of (GRP_step jump_solver lcH 2 1 stH)) =
     t_all lcH - time_c (solved jump_solver lcH 2 1 (Suc 2) (recon lcH 2 1 stH)) \<and>
   sized 2 stE \<and> reconstruct lcE 2 1 stE = Inr (recon lcE 2 1 stE) \<and>
   interfaces jump_solver lcE 2 1 (recon lcE 2 1 stE) =
     Inr (solved jump_solver lcE 2 1 (Suc 2) (recon lcE 2 1 stE)) \<and>
   \<not> isfinite (t_all lcE) \<and> isfinite (config stE 16) \<and> Fin 0 < config stE 16 \<and>
   tau stE = config stE 16 \<and>
   tau (state_of (GRP_step jump_solver lcE 2 1 stE)) = Fin (1 / 10)"
proof -
  note a = time_step_choice [OF sized_stA reconstructA interfacesA,
      unfolded stepA state_of.simps]
  note h = time_step_choice [OF sized_stH reconstructH interfacesH]
  note e = time_step_choice [OF sized_stE reconstructE interfacesE]
  have tc: "time_c (solved jump_solver lcA 2 1 (Suc 2) (recon lcA 2 1 stA)) = Fin 0"
    unfolding solvedA unfolding reconA by (simp add: stA_def entry_def rowA_def)
  have vals: "h_S_max endA = Fin (1 / 2)" "tau endA = Fin (1 / 4)"
    by (simp_all add: endA_def)
  have fa: "isfinite (t_all lcA)" by simp
  have fh: "isfinite (t_all lcH)" by simp
  have hs: "h_S_max endA =
     (case state_L lcA (recon lcA 2 1 stA) 0 of
        (rho, u, p) \<Rightarrow> h_cell lcA / (fabs u + dsqrt (gamma lcA * p / rho)))"
    unfolding hS_A vals ..
  have nn: "\<forall>j\<le>2.
      (case state_L lcA (recon lcA 2 1 stA) j of
         (rho, u, p) \<Rightarrow> h_cell lcA / (fabs u + dsqrt (gamma lcA * p / rho))) \<noteq> NaN \<and>
      (case state_R lcA 2 (recon lcA 2 1 stA) j of
         (rho, u, p) \<Rightarrow> h_cell lcA / (fabs u + dsqrt (gamma lcA * p / rho))) \<noteq> NaN"
    unfolding all_le_2 reconA
    by (simp add: state_L_def state_R_def stA_def entry_def rowA_def dbl_ops)
  note mn = a [THEN conjunct2, THEN conjunct1, THEN mp, OF nn, THEN conjunct1, rule_format,
      OF order_refl, THEN conjunct2]
  note nn2 = nn [rule_format, OF order_refl, THEN conjunct2]
  from a fa have ta: "tau endA =
     (if time_c (solved jump_solver lcA 2 1 (Suc 2) (recon lcA 2 1 stA)) + CFL lcA * h_S_max endA
          > t_all lcA - eps lcA
      then t_all lcA - time_c (solved jump_solver lcA 2 1 (Suc 2) (recon lcA 2 1 stA))
      else CFL lcA * h_S_max endA)"
    by blast
  have ta': "tau endA = CFL lcA * h_S_max endA"
    by (simp add: vals)
  from h fh have th: "tau (state_of (GRP_step jump_solver lcH 2 1 stH)) =
     (if time_c (solved jump_solver lcH 2 1 (Suc 2) (recon lcH 2 1 stH)) +
           CFL lcH * h_S_max (state_of (GRP_step jump_solver lcH 2 1 stH))
          > t_all lcH - eps lcH
      then t_all lcH - time_c (solved jump_solver lcH 2 1 (Suc 2) (recon lcH 2 1 stH))
      else CFL lcH * h_S_max (state_of (GRP_step jump_solver lcH 2 1 stH)))"
    by blast
  have th': "tau (state_of (GRP_step jump_solver lcH 2 1 stH)) =
     t_all lcH - time_c (solved jump_solver lcH 2 1 (Suc 2) (recon lcH 2 1 stH))"
    unfolding tauH by simp
  have fe: "\<not> isfinite (t_all lcE)" "isfinite (config stE 16)" "Fin 0 < config stE 16"
    "tau stE = config stE 16"
    by (simp_all add: stE_def entry_def rowE_def cfgE_def)
  from e fe have "tau (state_of (GRP_step jump_solver lcE 2 1 stE)) = config stE 16"
    by blast
  then have te: "tau (state_of (GRP_step jump_solver lcE 2 1 stE)) = Fin (1 / 10)"
    by (simp add: stE_def entry_def rowE_def cfgE_def)
  show ?thesis
    by (intro conjI sized_stA reconstructA interfacesA fa tc vals hs nn2 mn ta ta'
        sized_stH reconstructH interfacesH fh th th' sized_stE reconstructE interfacesE fe te)
qed

lemma lcG_fields [simp]:
  "t_all lcG = PInf" "eps lcG = Fin (1 / 1000)" "N_max lcG = 10" "gamma lcG = Fin 2"
  "CFL lcG = Fin (1 / 2)" "h_cell lcG = Fin 1" "bound lcG = - 4" "alpha lcG = Fin 1"
  by (simp_all add: lcG_def read_config_def cfgG_def cfgA_def)















lemma stepped_dire:
  assumes "j \<le> m"
  shows "(RHO_t (stepped grp lc m k r) ! j, U_t (stepped grp lc m k r) ! j,
          P_t (stepped grp lc m k r) ! j) = dire_at grp lc m r j"
proof -
  have t: "RHO_t (stepped grp lc m k r) = RHO_t (solved grp lc m k (Suc m) r)"
    "U_t (stepped grp lc m k r) = U_t (solved grp lc m k (Suc m) r)"
    "P_t (stepped grp lc m k r) = P_t (solved grp lc m k (Suc m) r)"
    by (simp_all add: stepped_def)
  show ?thesis unfolding t solved_arrays [OF assms] by simp
qed

text \<open>
  Claim C8, amended. The three tests of a step do not end it in the same way.

    \<^item> A reconstructed density or pressure below \<open>eps\<close>, or a reconstructed value that is not
      finite, ends the step at the first such interface \<open>j0\<close> with the Reconstruction line
      for \<open>(k, j0)\<close>; row \<open>n - 1\<close> is as it was.
    \<^item> A star state or an updated cell that fails the test prints its line for \<open>(k, j)\<close> and
      sets \<^verbatim>\<open>time_c\<close> to \<^verbatim>\<open>t_all\<close>, and the step goes on: with no failed reconstruction all
      interfaces are solved, every cell of row \<open>n\<close> is written and its slopes are
      refreshed, and row \<open>n - 1\<close> is as it was. The loop is left only by the test at the
      end of the step, which now reads \<^verbatim>\<open>t_all + tau\<close>: if it holds, \<open>k\<close> is written to
      \<^verbatim>\<open>config[5]\<close> and the loop is left, and otherwise the next step begins.
\<close>

theorem failure_exit:
  fixes k :: nat and grp :: grp_solver
  assumes sz: "sized m s" and ok: "ghost_ok lc"
  defines "r \<equiv> recon lc m k s"
  defines "u \<equiv> stepped grp lc m k r"
  defines "star \<equiv> \<lambda>j. star_bad lc (mid_at grp lc m r j)"
  defines "upd \<equiv> \<lambda>j. upd_bad lc u j"
  shows
   "((\<exists>j\<le>m. bad_recon lc m r j) \<longrightarrow>
       (\<exists>a j0. j0 \<le> m \<and> bad_recon lc m r j0 \<and> (\<forall>j<j0. \<not> bad_recon lc m r j) \<and>
          GRP_step grp lc m k s = Abort a \<and>
          last (out a) = recon_msg lc m k r j0 \<and>
          RHO0 a = RHO0 s \<and> U0 a = U0 s \<and> P0 a = P0 s \<and> E0 a = E0 s)) \<and>
    ((\<forall>j\<le>m. \<not> bad_recon lc m r j) \<longrightarrow>
       interfaces grp lc m k r = Inr (solved grp lc m k (Suc m) r) \<and>
       GRP_step grp lc m k s = time_update lc m k u \<and>
       (\<forall>j\<le>m. star j \<longrightarrow> Neg_STAR k j \<in> set (out u) \<or> NaN_STAR k j \<in> set (out u)) \<and>
       (\<forall>j<m. upd j \<longrightarrow> Neg_Update k j \<in> set (out u) \<or> NaN_Update k j \<in> set (out u)) \<and>
       (\<forall>j\<le>m. (RHO_t u ! j, U_t u ! j, P_t u ! j) = dire_at grp lc m r j) \<and>
       (\<forall>j<m. RHO1 u ! j = new_rho lc u j \<and> U1 u ! j = new_u lc u j \<and>
              E1 u ! j = new_e lc u j \<and> P1 u ! j = new_p lc u j \<and>
              s_u u ! j = (U_next u ! (j + 1) - U_next u ! j) / h_cell lc \<and>
              s_p u ! j = (P_next u ! (j + 1) - P_next u ! j) / h_cell lc \<and>
              s_rho u ! j = (RHO_next u ! (j + 1) - RHO_next u ! j) / h_cell lc) \<and>
       RHO0 u = RHO0 s \<and> U0 u = U0 s \<and> P0 u = P0 s \<and> E0 u = E0 s \<and>
       ((\<exists>j\<le>m. star j) \<or> (\<exists>j<m. upd j) \<longrightarrow>
          time_c u = t_all lc \<and>
          GRP_step grp lc m k s =
            (if t_all lc + tau u > t_all lc - eps lc \<or> isinf (t_all lc + tau u)
             then Break (u\<lparr>time_c := t_all lc + tau u,
                           config := (config s)(5 := of_step k)\<rparr>)
             else Next (u\<lparr>time_c := t_all lc + tau u,
                          RHO0 := RHO1 u, U0 := U1 u, E0 := E1 u, P0 := P1 u\<rparr>))))"
proof (intro conjI impI)
  assume "\<exists>j\<le>m. bad_recon lc m r j"
  then have bad: "\<not> (\<forall>j\<le>m. \<not> bad_recon lc m (recon lc m k s) j)"
    unfolding r_def by blast
  show "\<exists>a j0. j0 \<le> m \<and> bad_recon lc m r j0 \<and> (\<forall>j<j0. \<not> bad_recon lc m r j) \<and>
          GRP_step grp lc m k s = Abort a \<and>
          last (out a) = recon_msg lc m k r j0 \<and>
          RHO0 a = RHO0 s \<and> U0 a = U0 s \<and> P0 a = P0 s \<and> E0 a = E0 s"
    using sz
  proof (cases rule: GRP_step_cases [of m s lc grp k])
    case Tag
    with ok show ?thesis by simp
  next
    case (Recon j0)
    from Abort_old_row [OF sz Recon(2) Recon(6)] Recon(2,3,4) show ?thesis
      unfolding r_def by blast
  next
    case Run
    with bad show ?thesis by simp
  qed
next
  assume nb: "\<forall>j\<le>m. \<not> bad_recon lc m r j"
  have rc: "reconstruct lc m k s = Inr r"
    unfolding r_def reconstruct_eq [OF sz] using ok by simp
  have szr: "sized m r" unfolding r_def by (rule sized_recon [OF sz])
  show it: "interfaces grp lc m k r = Inr (solved grp lc m k (Suc m) r)"
    by (rule interfaces_ok [OF szr nb])
  have step: "GRP_step grp lc m k s = time_update lc m k u"
    unfolding u_def r_def by (rule GRP_step_eq(6) [OF sz rc [unfolded r_def] it [unfolded r_def]])
  have szu: "sized m u"
    unfolding u_def r_def by (rule GRP_step_eq(5) [OF sz rc [unfolded r_def] it [unfolded r_def]])
  have cfg: "config u = config s"
    unfolding u_def r_def by (simp add: stepped_config recon_frame)
  show "GRP_step grp lc m k s = time_update lc m k u" by (rule step)
  show "\<forall>j\<le>m. star j \<longrightarrow> Neg_STAR k j \<in> set (out u) \<or> NaN_STAR k j \<in> set (out u)"
    unfolding star_def u_def using stepped_star_msg by blast
  show "\<forall>j<m. upd j \<longrightarrow> Neg_Update k j \<in> set (out u) \<or> NaN_Update k j \<in> set (out u)"
    unfolding upd_def u_def using stepped_upd_msg by blast
  show "\<forall>j\<le>m. (RHO_t u ! j, U_t u ! j, P_t u ! j) = dire_at grp lc m r j"
    unfolding u_def by (simp add: stepped_dire)
  show "\<forall>j<m. RHO1 u ! j = new_rho lc u j \<and> U1 u ! j = new_u lc u j \<and>
              E1 u ! j = new_e lc u j \<and> P1 u ! j = new_p lc u j \<and>
              s_u u ! j = (U_next u ! (j + 1) - U_next u ! j) / h_cell lc \<and>
              s_p u ! j = (P_next u ! (j + 1) - P_next u ! j) / h_cell lc \<and>
              s_rho u ! j = (RHO_next u ! (j + 1) - RHO_next u ! j) / h_cell lc"
    unfolding u_def by (simp add: stepped_cells stepped_slopes)
  show "RHO0 u = RHO0 s" "U0 u = U0 s" "P0 u = P0 s" "E0 u = E0 s"
    unfolding u_def r_def by (rule stepped_old_row)+
  {
    assume "(\<exists>j\<le>m. star j) \<or> (\<exists>j<m. upd j)"
    then show tc: "time_c u = t_all lc"
      unfolding star_def upd_def unfolding u_def
      by (subst stepped_time_c) auto
    show "GRP_step grp lc m k s =
            (if t_all lc + tau u > t_all lc - eps lc \<or> isinf (t_all lc + tau u)
             then Break (u\<lparr>time_c := t_all lc + tau u,
                           config := (config s)(5 := of_step k)\<rparr>)
             else Next (u\<lparr>time_c := t_all lc + tau u,
                          RHO0 := RHO1 u, U0 := U1 u, E0 := E1 u, P0 := P1 u\<rparr>))"
      unfolding step time_update_eq [OF szu] time_up_def tc cfg ..
  }
qed

theorem failure_exit_witness:
  "sized 2 stF \<and> ghost_ok lcF \<and> bad_recon lcF 2 (recon lcF 2 1 stF) 0 \<and>
   (\<exists>a j0. j0 \<le> 2 \<and> bad_recon lcF 2 (recon lcF 2 1 stF) j0 \<and>
      (\<forall>j<j0. \<not> bad_recon lcF 2 (recon lcF 2 1 stF) j) \<and>
      GRP_step jump_solver lcF 2 1 stF = Abort a \<and>
      last (out a) = recon_msg lcF 2 1 (recon lcF 2 1 stF) j0 \<and>
      RHO0 a = RHO0 stF \<and> U0 a = U0 stF \<and> P0 a = P0 stF \<and> E0 a = E0 stF) \<and>
   sized 2 stA \<and> ghost_ok lcA \<and>
   \<not> bad_recon lcA 2 (recon lcA 2 1 stA) 0 \<and> \<not> bad_recon lcA 2 (recon lcA 2 1 stA) 1 \<and>
   \<not> bad_recon lcA 2 (recon lcA 2 1 stA) 2 \<and>
   star_bad lcA (mid_at vacuum_solver lcA 2 (recon lcA 2 1 stA) 0) \<and>
   (Neg_STAR 1 0 \<in> set (out (stepped vacuum_solver lcA 2 1 (recon lcA 2 1 stA))) \<or>
    NaN_STAR 1 0 \<in> set (out (stepped vacuum_solver lcA 2 1 (recon lcA 2 1 stA)))) \<and>
   time_c (stepped vacuum_solver lcA 2 1 (recon lcA 2 1 stA)) = t_all lcA \<and>
   upd_bad lcA (stepped jump_solver lcA 2 1 (recon lcA 2 1 stA)) 0 \<and>
   (Neg_Update 1 0 \<in> set (out (stepped jump_solver lcA 2 1 (recon lcA 2 1 stA))) \<or>
    NaN_Update 1 0 \<in> set (out (stepped jump_solver lcA 2 1 (recon lcA 2 1 stA)))) \<and>
   interfaces jump_solver lcA 2 1 (recon lcA 2 1 stA) =
     Inr (solved jump_solver lcA 2 1 (Suc 2) (recon lcA 2 1 stA)) \<and>
   (RHO_t (stepped jump_solver lcA 2 1 (recon lcA 2 1 stA)) ! 2,
    U_t (stepped jump_solver lcA 2 1 (recon lcA 2 1 stA)) ! 2,
    P_t (stepped jump_solver lcA 2 1 (recon lcA 2 1 stA)) ! 2) =
     dire_at jump_solver lcA 2 (recon lcA 2 1 stA) 2 \<and>
   RHO1 (stepped jump_solver lcA 2 1 (recon lcA 2 1 stA)) ! 1 =
     new_rho lcA (stepped jump_solver lcA 2 1 (recon lcA 2 1 stA)) 1 \<and>
   P1 (stepped jump_solver lcA 2 1 (recon lcA 2 1 stA)) ! 1 =
     new_p lcA (stepped jump_solver lcA 2 1 (recon lcA 2 1 stA)) 1 \<and>
   s_u (stepped jump_solver lcA 2 1 (recon lcA 2 1 stA)) ! 1 =
     (U_next (stepped jump_solver lcA 2 1 (recon lcA 2 1 stA)) ! (1 + 1) -
      U_next (stepped jump_solver lcA 2 1 (recon lcA 2 1 stA)) ! 1) / h_cell lcA \<and>
   RHO0 (stepped jump_solver lcA 2 1 (recon lcA 2 1 stA)) = RHO0 stA \<and>
   time_c (stepped jump_solver lcA 2 1 (recon lcA 2 1 stA)) = t_all lcA \<and>
   t_all lcA + tau (stepped jump_solver lcA 2 1 (recon lcA 2 1 stA)) = Fin (5 / 4) \<and>
   t_all lcA - eps lcA = Fin (999 / 1000) \<and>
   GRP_step jump_solver lcA 2 1 stA =
     Break ((stepped jump_solver lcA 2 1 (recon lcA 2 1 stA))
       \<lparr>time_c := Fin (5 / 4), config := (config stA)(5 := of_step 1)\<rparr>)"
proof -
  note tF = failure_exit [OF sized_stF ghost_ok_lcF, where k = 1 and grp = jump_solver]
  note tA = failure_exit [OF sized_stA ghost_ok_lcA, where k = 1 and grp = jump_solver,
      THEN conjunct2, THEN mp, OF no_bad_reconA]
  note tV = failure_exit [OF sized_stA ghost_ok_lcA, where k = 1 and grp = vacuum_solver,
      THEN conjunct2, THEN mp, OF no_bad_reconA]
  have two: "(0::nat) \<le> 2" "(0::nat) < 2" "(1::nat) < 2" "(2::nat) \<le> 2" by simp_all
  have cF: "\<exists>a j0. j0 \<le> 2 \<and> bad_recon lcF 2 (recon lcF 2 1 stF) j0 \<and>
      (\<forall>j<j0. \<not> bad_recon lcF 2 (recon lcF 2 1 stF) j) \<and>
      GRP_step jump_solver lcF 2 1 stF = Abort a \<and>
      last (out a) = recon_msg lcF 2 1 (recon lcF 2 1 stF) j0 \<and>
      RHO0 a = RHO0 stF \<and> U0 a = U0 stF \<and> P0 a = P0 stF \<and> E0 a = E0 stF"
    by (rule tF [THEN conjunct1, THEN mp]) (use bad_reconF two(1) in blast)
  note nb = no_bad_reconA [unfolded all_le_2]
  note a1 = tA [THEN conjunct1]
  note a2 = tA [THEN conjunct2]
  note a3 = a2 [THEN conjunct2]
  note a4 = a3 [THEN conjunct2]
  note a5 = a4 [THEN conjunct2]
  note a6 = a5 [THEN conjunct2]
  note a7 = a6 [THEN conjunct2]
  note a11 = a7 [THEN conjunct2, THEN conjunct2, THEN conjunct2, THEN conjunct2]
  note v3 = tV [THEN conjunct2, THEN conjunct2]
  note v11 = v3 [THEN conjunct2, THEN conjunct2, THEN conjunct2, THEN conjunct2,
      THEN conjunct2, THEN conjunct2, THEN conjunct2, THEN conjunct2]
  have sV: "Neg_STAR 1 0 \<in> set (out (stepped vacuum_solver lcA 2 1 (recon lcA 2 1 stA))) \<or>
    NaN_STAR 1 0 \<in> set (out (stepped vacuum_solver lcA 2 1 (recon lcA 2 1 stA)))"
    by (rule v3 [THEN conjunct1, rule_format, OF two(1) star_badV])
  have exV: "(\<exists>j\<le>2. star_bad lcA (mid_at vacuum_solver lcA 2 (recon lcA 2 1 stA) j)) \<or>
      (\<exists>j<2. upd_bad lcA (stepped vacuum_solver lcA 2 1 (recon lcA 2 1 stA)) j)"
    using star_badV two(1) by blast
  note tcV = v11 [THEN mp, OF exV, THEN conjunct1]
  have uA: "Neg_Update 1 0 \<in> set (out (stepped jump_solver lcA 2 1 (recon lcA 2 1 stA))) \<or>
    NaN_Update 1 0 \<in> set (out (stepped jump_solver lcA 2 1 (recon lcA 2 1 stA)))"
    by (rule a4 [THEN conjunct1, rule_format, OF two(2) upd_badA])
  note dire = a5 [THEN conjunct1, rule_format, OF two(4)]
  note cells = a6 [THEN conjunct1, rule_format, OF two(3)]
  note row = a7 [THEN conjunct1]
  have exA: "(\<exists>j\<le>2. star_bad lcA (mid_at jump_solver lcA 2 (recon lcA 2 1 stA) j)) \<or>
      (\<exists>j<2. upd_bad lcA (stepped jump_solver lcA 2 1 (recon lcA 2 1 stA)) j)"
    using upd_badA two(2) by blast
  note last = a11 [THEN mp, OF exA]
  have cond: "t_all lcA + tau (stepped jump_solver lcA 2 1 (recon lcA 2 1 stA)) = Fin (5 / 4)"
    "t_all lcA - eps lcA = Fin (999 / 1000)"
    unfolding tauA by simp_all
  have brk: "GRP_step jump_solver lcA 2 1 stA =
     Break ((stepped jump_solver lcA 2 1 (recon lcA 2 1 stA))
       \<lparr>time_c := Fin (5 / 4), config := (config stA)(5 := of_step 1)\<rparr>)"
    unfolding last [THEN conjunct2] cond by simp
  show ?thesis
    by (intro conjI sized_stF ghost_ok_lcF bad_reconF cF sized_stA ghost_ok_lcA
        nb [THEN conjunct1] nb [THEN conjunct2, THEN conjunct1] nb [THEN conjunct2, THEN conjunct2]
        star_badV sV tcV upd_badA uA a1 dire cells [THEN conjunct1]
        cells [THEN conjunct2, THEN conjunct2, THEN conjunct2, THEN conjunct1]
        cells [THEN conjunct2, THEN conjunct2, THEN conjunct2, THEN conjunct2, THEN conjunct1]
        row last [THEN conjunct1] cond brk)
qed

lemma lcC_fields [simp]:
  "t_all lcC = Fin 1" "eps lcC = Fin (1 / 1000)" "N_max lcC = 10" "gamma lcC = Fin 2"
  "CFL lcC = Fin (1 / 2)" "h_cell lcC = Fin (- 1)" "bound lcC = - 4" "alpha lcC = Fin 1"
  by (simp_all add: lcC_def read_config_def cfgC_def cfgA_def)

lemma sized_stC: "sized 2 stC"
  by (simp add: sized_def stC_def entry_def rowC_def)

lemma ghost_ok_lcC: "ghost_ok lcC"
  by (simp add: ghost_ok_def)

lemma reconC:
  "recon lcC 2 1 stC =
     stC\<lparr>h_S_max := PInf, out := [Alpha (Fin 1), Free_bc], find_bound := True,
         UL := Fin 0, UR := Fin 0, PL := Fin 1, PR := Fin 1, RHOL := Fin 2, RHOR := Fin 2,
         s_u := [Fin 0, Fin 0], s_p := [Fin 0, Fin 0], s_rho := [Fin 0, Fin 0]\<rparr>"
  by (simp add: recon_def sloped_def ghosted_def bound_values_def bound_slopes_def
      stC_def entry_def rowC_def cfgC_def cfgA_def lim_def quot_L_def quot_R_def)

lemma reconstructC: "reconstruct lcC 2 1 stC = Inr (recon lcC 2 1 stC)"
  by (simp add: reconstruct_eq [OF sized_stC] ghost_ok_def)

lemma no_bad_reconC: "\<forall>j\<le>2. \<not> bad_recon lcC 2 (recon lcC 2 1 stC) j"
  unfolding all_le_2 reconC
  by (simp add: bad_recon_def neg_recon_def nan_recon_def state_L_def state_R_def
        stC_def entry_def rowC_def dbl_ops)

lemma interfacesC:
  "interfaces jump_solver lcC 2 1 (recon lcC 2 1 stC) =
     Inr (solved jump_solver lcC 2 1 (Suc 2) (recon lcC 2 1 stC))"
  by (rule interfaces_ok [OF sized_recon [OF sized_stC] no_bad_reconC])

lemma solvedC:
  "solved jump_solver lcC 2 1 (Suc 2) (recon lcC 2 1 stC) =
     (recon lcC 2 1 stC)\<lparr>h_S_max := Fin (- 1),
        RHO_next := [Fin 2, Fin 2, Fin 2], U_next := [Fin 0, Fin 0, Fin 0],
        P_next := [Fin 1, Fin 1, Fin 1],
        RHO_t := [Fin 0, Fin 0, Fin 0], U_t := [Fin 0, Fin 0, Fin 0],
        P_t := [Fin 0, Fin 0, Fin 0]\<rparr>"
  unfolding reconC
  by (simp add: solved_def mid_at_def dire_at_def solve_def state_L_def state_R_def slope_L_def
      slope_R_def jump_solver_def h_S_def star_msgs_def star_bad_def
      stC_def entry_def rowC_def cfgC_def cfgA_def dbl_ops eval_nat_numeral)

lemma steppedC:
  "stepped jump_solver lcC 2 1 (recon lcC 2 1 stC) =
     (recon lcC 2 1 stC)\<lparr>h_S_max := Fin (- 1), tau := Fin (- 1 / 2),
        RHO_next := [Fin 2, Fin 2, Fin 2], U_next := [Fin 0, Fin 0, Fin 0],
        P_next := [Fin 1, Fin 1, Fin 1],
        RHO_t := [Fin 0, Fin 0, Fin 0], U_t := [Fin 0, Fin 0, Fin 0],
        P_t := [Fin 0, Fin 0, Fin 0],
        F1 := [Fin 0, Fin 0, Fin 0], F2 := [Fin 1, Fin 1, Fin 1], F3 := [Fin 0, Fin 0, Fin 0]\<rparr>"
  unfolding stepped_def solvedC unfolding reconC
  by (simp add: updated_def fluxed_def time_step_def Let_def
      half_rho_def half_u_def half_p_def flux1_def flux2_def flux3_def
      new_rho_def new_Mom_def new_Ene_def new_u_def new_e_def new_p_def
      upd_msgs_def upd_bad_def upd_neg_def upd_nan_def Ex_less_Suc
      stC_def entry_def rowC_def cfgC_def cfgA_def dbl_ops eval_nat_numeral)

lemma stepC: "GRP_step jump_solver lcC 2 1 stC = Next nextC"
  unfolding GRP_step_eq(6) [OF sized_stC reconstructC interfacesC]
    time_update_eq [OF GRP_step_eq(5) [OF sized_stC reconstructC interfacesC]]
  unfolding steppedC
  unfolding reconC
  by (simp add: time_up_def nextC_def stC_def entry_def rowC_def dbl_ops eval_nat_numeral)

lemma all_less_2: "(\<forall>j<2. P j) \<longleftrightarrow> P (0::nat) \<and> P 1"
proof -
  have "j < 2 \<longleftrightarrow> j = 0 \<or> j = 1" for j :: nat by auto
  then show ?thesis by auto
qed

lemma no_star_badC: "\<forall>j\<le>2. \<not> star_bad lcC (mid_at jump_solver lcC 2 (recon lcC 2 1 stC) j)"
  unfolding all_le_2 reconC
  by (simp add: star_bad_def mid_at_def solve_def jump_solver_def state_L_def state_R_def
      slope_L_def slope_R_def stC_def entry_def rowC_def dbl_ops)

lemma no_upd_badC: "\<forall>j<2. \<not> upd_bad lcC (stepped jump_solver lcC 2 1 (recon lcC 2 1 stC)) j"
  unfolding all_less_2 steppedC unfolding reconC
  by (simp add: upd_bad_def upd_neg_def upd_nan_def new_p_def new_rho_def new_Mom_def new_Ene_def
      new_u_def stC_def entry_def rowC_def dbl_ops)

lemma h_S_max_stepped:
  "h_S_max (stepped grp lc m k r) = h_S_max (solved grp lc m k (Suc m) r)"
  by (simp add: stepped_def)

lemma dmul_pos_nonpos:
  assumes "Fin 0 < c" "isfinite c" "hs \<le> Fin 0"
  shows "c * hs \<le> Fin 0"
  using assms by (cases c; cases hs) (simp_all add: dbl_ops mult_nonneg_nonpos)

text \<open>
  Claim C9, amended. The stepper has no test on the sign of \<^verbatim>\<open>h_S_max\<close> and no termination
  code. In a step with no failed test and an adaptive time step, when \<^verbatim>\<open>h_S_max\<close> is not
  positive and \<open>time_c + CFL * h_S_max\<close> neither exceeds \<open>t_all - eps\<close> nor is infinite, the
  stepper takes \<open>tau = CFL * h_S_max\<close> (not positive, for a finite positive \<^verbatim>\<open>CFL\<close>),
  prints nothing after the line of the boundary condition, and goes on to the next step
  with the time moved by \<open>tau\<close>.
\<close>

theorem nonpositive_h_S_max_continues:
  fixes k :: nat and grp :: grp_solver
  assumes sz: "sized m s" and ok: "ghost_ok lc"
  defines "r \<equiv> recon lc m k s"
  defines "u \<equiv> stepped grp lc m k r"
  assumes nb: "\<forall>j\<le>m. \<not> bad_recon lc m r j"
    and ns: "\<forall>j\<le>m. \<not> star_bad lc (mid_at grp lc m r j)"
    and nu: "\<forall>j<m. \<not> upd_bad lc u j"
    and ad: "isfinite (t_all lc) \<or> \<not> isfinite (config s 16) \<or> config s 16 \<le> Fin 0"
    and np: "h_S_max u \<le> Fin 0"
    and nc: "\<not> time_c s + CFL lc * h_S_max u > t_all lc - eps lc"
    and ni: "\<not> isinf (time_c s + CFL lc * h_S_max u)"
  shows "tau u = CFL lc * h_S_max u \<and>
    (Fin 0 < CFL lc \<and> isfinite (CFL lc) \<longrightarrow> tau u \<le> Fin 0) \<and>
    out u = out r \<and>
    GRP_step grp lc m k s =
      Next (u\<lparr>time_c := time_c s + tau u,
               RHO0 := RHO1 u, U0 := U1 u, E0 := E1 u, P0 := P1 u\<rparr>)"
proof -
  have rc: "reconstruct lc m k s = Inr (recon lc m k s)"
    unfolding reconstruct_eq [OF sz] using ok by simp
  have szr: "sized m (recon lc m k s)" by (rule sized_recon [OF sz])
  have it: "interfaces grp lc m k (recon lc m k s) =
      Inr (solved grp lc m k (Suc m) (recon lc m k s))"
    by (rule interfaces_ok [OF szr nb [unfolded r_def]])
  note e = GRP_step_eq [OF sz rc it]
  have tcs: "time_c (solved grp lc m k (Suc m) r) = time_c s"
    unfolding time_c_solved r_def using ns [unfolded r_def]
    by (auto simp add: less_Suc_eq_le recon_frame)
  have hs: "h_S_max (solved grp lc m k (Suc m) r) = h_S_max u"
    unfolding u_def h_S_max_stepped ..
  have cr: "config r = config s"
    unfolding r_def by (simp add: recon_frame)
  have tau: "tau u = CFL lc * h_S_max u"
  proof -
    have "tau u = tau (time_step lc (solved grp lc m k (Suc m) r))"
      unfolding u_def by (rule stepped_tau)
    also have "\<dots> = CFL lc * h_S_max u"
      using ad nc by (simp add: time_step_def Let_def tcs cr hs)
    finally show ?thesis .
  qed
  have sign: "tau u \<le> Fin 0" if "Fin 0 < CFL lc \<and> isfinite (CFL lc)"
    unfolding tau using that np dmul_pos_nonpos by blast
  have tcu: "time_c u = time_c s"
    unfolding u_def stepped_time_c using ns nu [unfolded u_def]
    by (auto simp add: r_def recon_frame)
  have sm: "star_msgs lc k j (mid_at grp lc m r j) = []" if "j \<le> m" for j
    using ns that by (cases "mid_at grp lc m r j") (auto simp add: star_msgs_def star_bad_def)
  have um: "upd_msgs lc k (stepped grp lc m k r) j = []" if "j < m" for j
    using nu [unfolded u_def] that by (auto simp add: upd_msgs_def upd_bad_def)
  have out: "out u = out r"
    unfolding u_def stepped_out by (simp add: sm um less_Suc_eq_le del: upt_Suc)
  have step0: "GRP_step grp lc m k s = time_update lc m k u"
    unfolding u_def r_def by (rule e(6))
  have szu: "sized m u" unfolding u_def r_def by (rule e(5))
  have up: "\<not> time_up lc u"
    unfolding time_up_def tcu tau using nc ni by simp
  have step: "GRP_step grp lc m k s =
      Next (u\<lparr>time_c := time_c s + tau u,
               RHO0 := RHO1 u, U0 := U1 u, E0 := E1 u, P0 := P1 u\<rparr>)"
    unfolding step0 time_update_eq [OF szu] using up by (simp add: tcu)
  from tau sign out step show ?thesis by blast
qed

theorem nonpositive_h_S_max_continues_witness:
  "sized 2 stC \<and> ghost_ok lcC \<and>
   \<not> bad_recon lcC 2 (recon lcC 2 1 stC) 0 \<and> \<not> bad_recon lcC 2 (recon lcC 2 1 stC) 1 \<and>
   \<not> bad_recon lcC 2 (recon lcC 2 1 stC) 2 \<and>
   \<not> star_bad lcC (mid_at jump_solver lcC 2 (recon lcC 2 1 stC) 0) \<and>
   \<not> upd_bad lcC (stepped jump_solver lcC 2 1 (recon lcC 2 1 stC)) 0 \<and>
   \<not> upd_bad lcC (stepped jump_solver lcC 2 1 (recon lcC 2 1 stC)) 1 \<and>
   isfinite (t_all lcC) \<and>
   h_S_max (stepped jump_solver lcC 2 1 (recon lcC 2 1 stC)) = Fin (- 1) \<and>
   h_S_max (stepped jump_solver lcC 2 1 (recon lcC 2 1 stC)) \<le> Fin 0 \<and>
   \<not> time_c stC + CFL lcC * h_S_max (stepped jump_solver lcC 2 1 (recon lcC 2 1 stC))
       > t_all lcC - eps lcC \<and>
   \<not> isinf (time_c stC + CFL lcC * h_S_max (stepped jump_solver lcC 2 1 (recon lcC 2 1 stC))) \<and>
   Fin 0 < CFL lcC \<and> isfinite (CFL lcC) \<and>
   tau (stepped jump_solver lcC 2 1 (recon lcC 2 1 stC)) = Fin (- 1 / 2) \<and>
   tau (stepped jump_solver lcC 2 1 (recon lcC 2 1 stC)) \<le> Fin 0 \<and>
   out (stepped jump_solver lcC 2 1 (recon lcC 2 1 stC)) = [Alpha (Fin 1), Free_bc] \<and>
   GRP_step jump_solver lcC 2 1 stC =
     Next ((stepped jump_solver lcC 2 1 (recon lcC 2 1 stC))
       \<lparr>time_c := Fin (- 1 / 2),
        RHO0 := RHO1 (stepped jump_solver lcC 2 1 (recon lcC 2 1 stC)),
        U0 := U1 (stepped jump_solver lcC 2 1 (recon lcC 2 1 stC)),
        E0 := E1 (stepped jump_solver lcC 2 1 (recon lcC 2 1 stC)),
        P0 := P1 (stepped jump_solver lcC 2 1 (recon lcC 2 1 stC))\<rparr>)"
proof -
  have hs: "h_S_max (stepped jump_solver lcC 2 1 (recon lcC 2 1 stC)) = Fin (- 1)"
    unfolding steppedC by simp
  have np: "h_S_max (stepped jump_solver lcC 2 1 (recon lcC 2 1 stC)) \<le> Fin 0"
    unfolding hs by simp
  have ad: "isfinite (t_all lcC)" by simp
  then have ad': "isfinite (t_all lcC) \<or> \<not> isfinite (config stC 16) \<or> config stC 16 \<le> Fin 0"
    by blast
  have c: "Fin 0 < CFL lcC" "isfinite (CFL lcC)" by simp_all
  have t0: "time_c stC = Fin 0" by (simp add: stC_def entry_def rowC_def)
  have nc: "\<not> time_c stC + CFL lcC * h_S_max (stepped jump_solver lcC 2 1 (recon lcC 2 1 stC))
       > t_all lcC - eps lcC"
    "\<not> isinf (time_c stC + CFL lcC * h_S_max (stepped jump_solver lcC 2 1 (recon lcC 2 1 stC)))"
    unfolding hs t0 by simp_all
  have oc: "out (recon lcC 2 1 stC) = [Alpha (Fin 1), Free_bc]"
    unfolding reconC by simp
  note th = nonpositive_h_S_max_continues [OF sized_stC ghost_ok_lcC no_bad_reconC
      no_star_badC no_upd_badC ad' np nc]
  have tau: "tau (stepped jump_solver lcC 2 1 (recon lcC 2 1 stC)) = Fin (- 1 / 2)"
    unfolding th [THEN conjunct1] hs by simp
  have sg: "tau (stepped jump_solver lcC 2 1 (recon lcC 2 1 stC)) \<le> Fin 0"
    using th [THEN conjunct2, THEN conjunct1] c by blast
  have st: "GRP_step jump_solver lcC 2 1 stC =
     Next ((stepped jump_solver lcC 2 1 (recon lcC 2 1 stC))
       \<lparr>time_c := Fin (- 1 / 2),
        RHO0 := RHO1 (stepped jump_solver lcC 2 1 (recon lcC 2 1 stC)),
        U0 := U1 (stepped jump_solver lcC 2 1 (recon lcC 2 1 stC)),
        E0 := E1 (stepped jump_solver lcC 2 1 (recon lcC 2 1 stC)),
        P0 := P1 (stepped jump_solver lcC 2 1 (recon lcC 2 1 stC))\<rparr>)"
    unfolding th [THEN conjunct2, THEN conjunct2, THEN conjunct2] unfolding tau t0 by simp
  note nb = no_bad_reconC [unfolded all_le_2]
  note ns = no_star_badC [unfolded all_le_2]
  note nu = no_upd_badC [unfolded all_less_2]
  show ?thesis
    by (intro conjI sized_stC ghost_ok_lcC nb [THEN conjunct1]
        nb [THEN conjunct2, THEN conjunct1] nb [THEN conjunct2, THEN conjunct2]
        ns [THEN conjunct1] nu [THEN conjunct1] nu [THEN conjunct2] ad hs np nc c tau sg
        th [THEN conjunct2, THEN conjunct2, THEN conjunct1, unfolded oc]
        st)
qed

text \<open>
  Claim C9 as stated fails: in example C the cell width is \<open>- 1\<close>, so \<^verbatim>\<open>h_S_max\<close> is \<open>- 1\<close> and
  \<open>tau\<close> is \<open>- 1 / 2\<close>. Step 1 prints nothing but the line of the boundary condition, moves
  the time back to \<open>- 1 / 2\<close> and goes on to step 2.
\<close>

theorem negative_step_goes_on:
  "GRP_step jump_solver lcC 2 1 stC = Next nextC \<and>
   h_S_max nextC = Fin (- 1) \<and> h_S_max nextC \<le> Fin 0 \<and>
   tau nextC = Fin (- 1 / 2) \<and> tau nextC < Fin 0 \<and>
   out nextC = [Alpha (Fin 1), Free_bc] \<and>
   time_c stC = Fin 0 \<and> time_c nextC = Fin (- 1 / 2) \<and> config nextC = cfgC"
  unfolding stepC
  by (simp add: nextC_def stC_def entry_def rowC_def)

lemma GRP_step_Break:
  assumes sz: "sized m s" and br: "GRP_step grp lc m k s = Break b"
  shows "config b = (config s)(5 := of_step k)"
    "t_all lc - eps lc < time_c b \<or> isinf (time_c b)"
proof -
  let ?r = "recon lc m k s"
  let ?u = "stepped grp lc m k ?r"
  from sz obtain rc: "reconstruct lc m k s = Inr ?r"
    and ic: "interfaces grp lc m k ?r = Inr (solved grp lc m k (Suc m) ?r)"
    and st: "GRP_step grp lc m k s = time_update lc m k ?u"
    using br by (cases rule: GRP_step_cases [of m s lc grp k]) simp_all
  note e = GRP_step_eq [OF sz rc ic]
  from st br have tu: "time_update lc m k ?u = Break b" by simp
  then have up: "time_up lc ?u"
    and b: "b = ?u\<lparr>time_c := time_c ?u + tau ?u, config := (config ?u)(5 := of_step k)\<rparr>"
    unfolding time_update_eq [OF e(5)] by (simp_all split: if_splits)
  show "config b = (config s)(5 := of_step k)"
    unfolding b by (simp add: stepped_config recon_frame)
  from up show "t_all lc - eps lc < time_c b \<or> isinf (time_c b)"
    unfolding b time_up_def by simp
qed

lemma steps_config:
  assumes "steps grp lc m n s = Some t" "sized m s"
  shows "sized m t" "config t = config s"
proof -
  have "sized m t \<and> config t = config s"
    using assms
  proof (rule steps_induct)
    show "config s = config s" ..
  next
    fix k t t'
    assume "sized m t" "config t = config s" "GRP_step grp lc m k t = Next t'"
    with GRP_step_Next(3) [of m t grp lc k t'] show "config t' = config s" by simp
  qed
  then show "sized m t" "config t = config s" by simp_all
qed

lemma main_loop_Break:
  assumes "steps grp lc m n0 s0 = Some s" "sized m s0"
    and "main_loop grp lc m (Suc n0) s = Break b"
  shows "\<exists>n t b'. steps grp lc m n s0 = Some t \<and> int (Suc n) \<le> N_max lc \<and>
      GRP_step grp lc m (Suc n) t = Break b' \<and>
      b = b'\<lparr>out := out b' @ [Time_is_up (Suc n)]\<rparr>"
  using assms
proof (induction "nat (N_max lc - int n0)" arbitrary: n0 s rule: less_induct)
  case less
  note run = less.prems(1) and sz = less.prems(2) and br = less.prems(3)
  have le: "int (Suc n0) \<le> N_max lc"
  proof (rule ccontr)
    assume "\<not> int (Suc n0) \<le> N_max lc"
    with br show False by (subst (asm) main_loop.simps) simp
  qed
  show ?case
  proof (cases "GRP_step grp lc m (Suc n0) s")
    case (Abort a)
    with br le show ?thesis by (subst (asm) main_loop.simps) simp
  next
    case (Break b')
    with br le have "b = b'\<lparr>out := out b' @ [Time_is_up (Suc n0)]\<rparr>"
      by (subst (asm) main_loop.simps) simp
    with run le Break show ?thesis by blast
  next
    case (Next s')
    with br le have br': "main_loop grp lc m (Suc (Suc n0)) s' = Break b"
      by (subst (asm) main_loop.simps) simp
    from run Next have run': "steps grp lc m (Suc n0) s0 = Some s'" by simp
    from le have "nat (N_max lc - int (Suc n0)) < nat (N_max lc - int n0)" by simp
    from less.hyps [OF this run' sz br'] show ?thesis .
  qed
qed

text \<open>
  Claim C10. When the function leaves its loop by the test on the time at the end of a
  step, that step is the last one run: the steps \<open>1..n\<close> before it went on to their next
  step and step \<open>n + 1\<close> met the test, with \<^verbatim>\<open>time_c > t_all - eps\<close> or \<^verbatim>\<open>time_c\<close> infinite. The
  configuration the caller gets back is the one it gave with entry 5, the maximum number
  of steps, replaced by \<open>n + 1\<close>; no error need have occurred.
\<close>

theorem config5_overwritten:
  assumes sz: "sized m (entry cfg m row0 row1)"
    and br: "GRP_solver_EUL_source grp cfg m row0 row1 = Break b"
  shows "\<exists>n t b'. steps grp (read_config cfg) m n (entry cfg m row0 row1) = Some t \<and>
      int (Suc n) \<le> N_max (read_config cfg) \<and>
      GRP_step grp (read_config cfg) m (Suc n) t = Break b' \<and>
      (t_all (read_config cfg) - eps (read_config cfg) < time_c b' \<or> isinf (time_c b')) \<and>
      b = b'\<lparr>out := out b' @ [Time_is_up (Suc n)]\<rparr> \<and>
      config b = cfg(5 := of_step (Suc n))"
proof -
  let ?lc = "read_config cfg" and ?s = "entry cfg m row0 row1"
  have s0: "steps grp ?lc m 0 ?s = Some ?s" by simp
  from br have "main_loop grp ?lc m (Suc 0) ?s = Break b"
    unfolding GRP_solver_EUL_source_def by simp
  from main_loop_Break [OF s0 sz this] obtain n t b' where
    r: "steps grp ?lc m n ?s = Some t" "int (Suc n) \<le> N_max ?lc"
      "GRP_step grp ?lc m (Suc n) t = Break b'"
      "b = b'\<lparr>out := out b' @ [Time_is_up (Suc n)]\<rparr>"
    by blast
  note c = steps_config [OF r(1) sz]
  note g = GRP_step_Break [OF c(1) r(3)]
  have "config ?s = cfg" by (cases row0; cases row1) (simp add: entry_def)
  with g(1) c(2) r(4) have "config b = cfg(5 := of_step (Suc n))" by simp
  with r g(2) show ?thesis by blast
qed

lemma lcD_fields [simp]:
  "t_all lcD = Fin 1" "eps lcD = Fin (1 / 1000)" "N_max lcD = 10" "gamma lcD = Fin 2"
  "CFL lcD = Fin (1 / 2)" "h_cell lcD = Fin 1" "bound lcD = - 4" "alpha lcD = Fin 1"
  by (simp_all add: lcD_def read_config_def cfgD_def cfgA_def)

lemma sized_stD: "sized 2 stD"
  by (simp add: sized_def stD_def entry_def rowC_def)

lemma sized_nextD: "sized 2 nextD"
  by (simp add: sized_def nextD_def stD_def entry_def rowC_def)

lemma reconD:
  "recon lcD 2 1 stD =
     stD\<lparr>h_S_max := PInf, out := [Alpha (Fin 1), Free_bc], find_bound := True,
         UL := Fin 0, UR := Fin 0, PL := Fin 1, PR := Fin 1, RHOL := Fin 2, RHOR := Fin 2,
         s_u := [Fin 0, Fin 0], s_p := [Fin 0, Fin 0], s_rho := [Fin 0, Fin 0]\<rparr>"
  by (simp add: recon_def sloped_def ghosted_def bound_values_def bound_slopes_def
      stD_def entry_def rowC_def cfgD_def cfgA_def lim_def quot_L_def quot_R_def)

lemma reconD2: "recon lcD 2 2 nextD = nextD\<lparr>h_S_max := PInf\<rparr>"
  by (simp add: recon_def sloped_def ghosted_def bound_values_def bound_slopes_def
      nextD_def stD_def entry_def rowC_def cfgD_def cfgA_def lim_def quot_L_def quot_R_def)

lemma reconstructD: "reconstruct lcD 2 1 stD = Inr (recon lcD 2 1 stD)"
  "reconstruct lcD 2 2 nextD = Inr (recon lcD 2 2 nextD)"
  by (simp_all add: reconstruct_eq [OF sized_stD] reconstruct_eq [OF sized_nextD] ghost_ok_def)

lemma interfacesD1:
  "interfaces jump_solver lcD 2 1 (recon lcD 2 1 stD) =
     Inr (solved jump_solver lcD 2 1 (Suc 2) (recon lcD 2 1 stD))"
proof (rule interfaces_ok [OF sized_recon [OF sized_stD]])
  show "\<forall>j\<le>2. \<not> bad_recon lcD 2 (recon lcD 2 1 stD) j"
    unfolding all_le_2 reconD
    by (simp add: bad_recon_def neg_recon_def nan_recon_def state_L_def state_R_def
        stD_def entry_def rowC_def dbl_ops)
qed

lemma interfacesD2:
  "interfaces jump_solver lcD 2 2 (recon lcD 2 2 nextD) =
     Inr (solved jump_solver lcD 2 2 (Suc 2) (recon lcD 2 2 nextD))"
proof (rule interfaces_ok [OF sized_recon [OF sized_nextD]])
  show "\<forall>j\<le>2. \<not> bad_recon lcD 2 (recon lcD 2 2 nextD) j"
    unfolding all_le_2 reconD2
    by (simp add: bad_recon_def neg_recon_def nan_recon_def state_L_def state_R_def
        nextD_def stD_def entry_def rowC_def dbl_ops)
qed

lemma steppedD1:
  "stepped jump_solver lcD 2 1 (recon lcD 2 1 stD) =
     (recon lcD 2 1 stD)\<lparr>h_S_max := Fin 1, tau := Fin (1 / 2),
        RHO_next := [Fin 2, Fin 2, Fin 2], U_next := [Fin 0, Fin 0, Fin 0],
        P_next := [Fin 1, Fin 1, Fin 1],
        RHO_t := [Fin 0, Fin 0, Fin 0], U_t := [Fin 0, Fin 0, Fin 0],
        P_t := [Fin 0, Fin 0, Fin 0],
        F1 := [Fin 0, Fin 0, Fin 0], F2 := [Fin 1, Fin 1, Fin 1], F3 := [Fin 0, Fin 0, Fin 0]\<rparr>"
  unfolding stepped_def unfolding reconD
  by (simp add: updated_def fluxed_def time_step_def Let_def solved_def
      mid_at_def dire_at_def solve_def state_L_def state_R_def slope_L_def
      slope_R_def jump_solver_def h_S_def star_msgs_def star_bad_def
      half_rho_def half_u_def half_p_def flux1_def flux2_def flux3_def
      new_rho_def new_Mom_def new_Ene_def new_u_def new_e_def new_p_def
      upd_msgs_def upd_bad_def upd_neg_def upd_nan_def Ex_less_Suc
      stD_def entry_def rowC_def cfgD_def cfgA_def dbl_ops eval_nat_numeral)

lemma steppedD2:
  "stepped jump_solver lcD 2 2 (recon lcD 2 2 nextD) = nextD"
  unfolding stepped_def unfolding reconD2
  by (simp add: updated_def fluxed_def time_step_def Let_def solved_def
      mid_at_def dire_at_def solve_def state_L_def state_R_def slope_L_def
      slope_R_def jump_solver_def h_S_def star_msgs_def star_bad_def
      half_rho_def half_u_def half_p_def flux1_def flux2_def flux3_def
      new_rho_def new_Mom_def new_Ene_def new_u_def new_e_def new_p_def
      upd_msgs_def upd_bad_def upd_neg_def upd_nan_def Ex_less_Suc
      nextD_def stD_def entry_def rowC_def cfgD_def cfgA_def dbl_ops eval_nat_numeral)

lemma stepD1: "GRP_step jump_solver lcD 2 1 stD = Next nextD"
  unfolding GRP_step_eq(6) [OF sized_stD reconstructD(1) interfacesD1]
    time_update_eq [OF GRP_step_eq(5) [OF sized_stD reconstructD(1) interfacesD1]]
  unfolding steppedD1
  unfolding reconD
  by (simp add: time_up_def nextD_def stD_def entry_def rowC_def dbl_ops eval_nat_numeral)

lemma stepD2: "GRP_step jump_solver lcD 2 2 nextD = Break endD"
  unfolding GRP_step_eq(6) [OF sized_nextD reconstructD(2) interfacesD2]
    time_update_eq [OF GRP_step_eq(5) [OF sized_nextD reconstructD(2) interfacesD2]]
  unfolding steppedD2
  by (simp add: time_up_def endD_def nextD_def stD_def entry_def rowC_def of_step_def dbl_ops)

lemma runD: "GRP_solver_EUL_source jump_solver cfgD 2 rowC rowC = Break finD"
proof -
  have two: "Suc 1 = 2" by simp
  have "main_loop jump_solver lcD 2 1 stD = main_loop jump_solver lcD 2 2 nextD"
    by (subst main_loop.simps) (simp add: stepD1 two del: One_nat_def)
  also have "\<dots> = Break finD"
    apply (subst main_loop.simps)
    apply (simp add: stepD2)
    apply (simp add: finD_def endD_def nextD_def)
    done
  finally show ?thesis
    unfolding GRP_solver_EUL_source_def lcD_def [symmetric] stD_def [symmetric] .
qed

theorem config5_overwritten_witness:
  "sized 2 (entry cfgD 2 rowC rowC) \<and>
   GRP_solver_EUL_source jump_solver cfgD 2 rowC rowC = Break finD \<and>
   out finD = [Alpha (Fin 1), Free_bc, Time_is_up 2] \<and>
   time_c finD = t_all (read_config cfgD) \<and>
   cfgD 5 = Fin 10 \<and> config finD 5 = Fin 2 \<and> of_step 2 = Fin 2 \<and>
   steps jump_solver (read_config cfgD) 2 1 (entry cfgD 2 rowC rowC) = Some nextD \<and>
   GRP_step jump_solver (read_config cfgD) 2 2 nextD = Break endD \<and>
   (\<exists>n t b'. steps jump_solver (read_config cfgD) 2 n (entry cfgD 2 rowC rowC) = Some t \<and>
      int (Suc n) \<le> N_max (read_config cfgD) \<and>
      GRP_step jump_solver (read_config cfgD) 2 (Suc n) t = Break b' \<and>
      (t_all (read_config cfgD) - eps (read_config cfgD) < time_c b' \<or> isinf (time_c b')) \<and>
      finD = b'\<lparr>out := out b' @ [Time_is_up (Suc n)]\<rparr> \<and>
      config finD = cfgD(5 := of_step (Suc n)))"
proof -
  have sz: "sized 2 (entry cfgD 2 rowC rowC)"
    using sized_stD unfolding stD_def .
  note t = config5_overwritten [OF sz runD]
  have o: "out finD = [Alpha (Fin 1), Free_bc, Time_is_up 2]"
    "time_c finD = t_all (read_config cfgD)"
    "cfgD 5 = Fin 10" "config finD 5 = Fin 2" "of_step 2 = Fin 2"
    unfolding lcD_def [symmetric]
    by (simp_all add: finD_def endD_def cfgD_def cfgA_def of_step_def)
  have s1: "steps jump_solver (read_config cfgD) 2 1 (entry cfgD 2 rowC rowC) = Some nextD"
    unfolding lcD_def [symmetric] stD_def [symmetric]
    using stepD1 by (simp add: eval_nat_numeral)
  have s2: "GRP_step jump_solver (read_config cfgD) 2 2 nextD = Break endD"
    unfolding lcD_def [symmetric] by (rule stepD2)
  show ?thesis
    by (intro conjI sz runD o s1 s2 t)
qed

end
